theory Spec2Isabelle
  imports Complex_Main
begin

unbundle bit_operations_syntax

section \<open>Numbers, pointers and the environment\<close>

text \<open>
  A \<^verbatim>\<open>double\<close> is a not-a-number, an infinity, the negative zero or a finite value
  (\<open>Finite 0\<close> is the positive zero); \<^verbatim>\<open>d_cx\<close> (\<^verbatim>\<open>double _Complex\<close>) is a pair of
  them. The results of floating-point arithmetic and of the C library, rounded as they
  are, are not computed here: they are fields of the record \<open>machine\<close>, and every theorem
  holds for every machine unless it names the results it needs.
\<close>

datatype double = NaN | PosInf | NegInf | NegZero | Finite real

datatype d_cx = Cx (creal: double) (cimag: double)

text \<open>A real value converted to \<^verbatim>\<open>double _Complex\<close> gets the imaginary part zero.\<close>

definition cx_of_double :: "double \<Rightarrow> d_cx" where
  "cx_of_double x = Cx x (Finite 0)"

definition NAN :: d_cx where
  "NAN = cx_of_double NaN"

definition INFINITY :: d_cx where
  "INFINITY = cx_of_double PosInf"

type_synonym addr = nat

text \<open>
  The functions of \<^verbatim>\<open>tinyexprx.c\<close> a node can point to (\<open>fn_\<close>), the functions of
  \<^verbatim>\<open>complex.h\<close> its table names (\<open>libm_\<close>), and code of the caller at an address.
\<close>

datatype fnptr =
    fn_i | fn_pi | fn_e | fn_infinity
  | fn_cabs | fn_carg | fn_cimag | fn_creal
  | fn_add | fn_sub | fn_mul | fn_divide | fn_negate | fn_comma
  | libm_cacos | libm_cacosh | libm_casin | libm_casinh | libm_catan | libm_catanh
  | libm_conj | libm_ccos | libm_ccosh | libm_cexp | libm_clog | libm_cpow
  | libm_csin | libm_csinh | libm_csqrt | libm_ctan | libm_ctanh
  | Native addr

text \<open>A \<^verbatim>\<open>void *\<close>: null, the address of a \<^verbatim>\<open>d_cx\<close> of the caller, or a function.\<close>

datatype pointer = NULL_ptr | Storage addr | Code fnptr

text \<open>The caller's memory: what a load through a pointer yields.\<close>

type_synonym memory = "pointer \<Rightarrow> d_cx"

record machine =
  strtod :: "string \<Rightarrow> double \<times> nat"
  malloc_ok :: "nat \<Rightarrow> bool"
  cx_add :: "d_cx \<Rightarrow> d_cx \<Rightarrow> d_cx"
  cx_sub :: "d_cx \<Rightarrow> d_cx \<Rightarrow> d_cx"
  cx_mul :: "d_cx \<Rightarrow> d_cx \<Rightarrow> d_cx"
  cx_div :: "d_cx \<Rightarrow> d_cx \<Rightarrow> d_cx"
  cx_neg :: "d_cx \<Rightarrow> d_cx"
  mul_I :: "double \<Rightarrow> d_cx"
  cabs :: "d_cx \<Rightarrow> double"
  carg :: "d_cx \<Rightarrow> double"
  cpow :: "d_cx \<Rightarrow> d_cx \<Rightarrow> d_cx"
  libm1 :: "fnptr \<Rightarrow> d_cx \<Rightarrow> d_cx"
  extern :: "pointer \<Rightarrow> pointer option \<Rightarrow> d_cx list \<Rightarrow> memory \<Rightarrow> d_cx"
  pun_value :: "pointer \<Rightarrow> d_cx"
  pun_pointer :: "d_cx \<Rightarrow> pointer"

text \<open>
  \<^item> \<open>strtod M cs\<close>: the value \<^verbatim>\<open>strtod\<close> reads at the start of \<open>cs\<close> and the number of
    characters it consumes;
  \<^item> \<open>malloc_ok M k\<close>: whether the \<open>k\<close>-th call of \<^verbatim>\<open>malloc\<close> of a compilation (from 0)
    returns memory;
  \<^item> \<open>cx_add\<close> ... \<open>cx_neg\<close>: the operators \<^verbatim>\<open>+ - * /\<close> and unary \<^verbatim>\<open>-\<close> on
    \<^verbatim>\<open>double _Complex\<close>; \<open>mul_I M x\<close>: the product \<^verbatim>\<open>x*I\<close> of a double and \<^verbatim>\<open>I\<close>;
  \<^item> \<open>cabs\<close>, \<open>carg\<close>, \<open>cpow\<close>, \<open>libm1 M f\<close>: the functions of \<^verbatim>\<open>complex.h\<close>;
  \<^item> \<open>extern M p c args mem\<close>: the result of calling \<open>p\<close> where \<open>p\<close> is not a function of
    the file or the library called at its own arity: code of the caller (which may read
    the caller's memory and gets the context \<open>c\<close> when called as a closure), or a call
    the C standard leaves undefined;
  \<^item> \<open>pun_value\<close>, \<open>pun_pointer\<close>: what reading a union member other than the one last
    written yields.
\<close>

section \<open>Types of nodes and tokens\<close>

abbreviation (input) TX_VARIABLE :: int where "TX_VARIABLE \<equiv> 0"
abbreviation (input) TX_CONSTANT :: int where "TX_CONSTANT \<equiv> 1"
abbreviation (input) TX_FUNCTION0 :: int where "TX_FUNCTION0 \<equiv> 8"
abbreviation (input) TX_FUNCTION1 :: int where "TX_FUNCTION1 \<equiv> 9"
abbreviation (input) TX_FUNCTION2 :: int where "TX_FUNCTION2 \<equiv> 10"
abbreviation (input) TX_FUNCTION3 :: int where "TX_FUNCTION3 \<equiv> 11"
abbreviation (input) TX_FUNCTION4 :: int where "TX_FUNCTION4 \<equiv> 12"
abbreviation (input) TX_FUNCTION5 :: int where "TX_FUNCTION5 \<equiv> 13"
abbreviation (input) TX_FUNCTION6 :: int where "TX_FUNCTION6 \<equiv> 14"
abbreviation (input) TX_CLOSURE0 :: int where "TX_CLOSURE0 \<equiv> 16"
abbreviation (input) TX_CLOSURE1 :: int where "TX_CLOSURE1 \<equiv> 17"
abbreviation (input) TX_CLOSURE2 :: int where "TX_CLOSURE2 \<equiv> 18"
abbreviation (input) TX_CLOSURE3 :: int where "TX_CLOSURE3 \<equiv> 19"
abbreviation (input) TX_CLOSURE4 :: int where "TX_CLOSURE4 \<equiv> 20"
abbreviation (input) TX_CLOSURE5 :: int where "TX_CLOSURE5 \<equiv> 21"
abbreviation (input) TX_CLOSURE6 :: int where "TX_CLOSURE6 \<equiv> 22"
abbreviation (input) TX_FLAG_PURE :: int where "TX_FLAG_PURE \<equiv> 32"

abbreviation (input) TOK_NULL :: int where "TOK_NULL \<equiv> 23"
abbreviation (input) TOK_ERROR :: int where "TOK_ERROR \<equiv> 24"
abbreviation (input) TOK_END :: int where "TOK_END \<equiv> 25"
abbreviation (input) TOK_SEP :: int where "TOK_SEP \<equiv> 26"
abbreviation (input) TOK_OPEN :: int where "TOK_OPEN \<equiv> 27"
abbreviation (input) TOK_CLOSE :: int where "TOK_CLOSE \<equiv> 28"
abbreviation (input) TOK_NUMBER_R :: int where "TOK_NUMBER_R \<equiv> 29"
abbreviation (input) TOK_NUMBER_I :: int where "TOK_NUMBER_I \<equiv> 30"
abbreviation (input) TOK_VARIABLE :: int where "TOK_VARIABLE \<equiv> 31"
abbreviation (input) TOK_INFIX :: int where "TOK_INFIX \<equiv> 32"

definition TYPE_MASK :: "int \<Rightarrow> int" where
  "TYPE_MASK t = t AND 0x1F"

definition IS_PURE :: "int \<Rightarrow> bool" where
  "IS_PURE t = (t AND TX_FLAG_PURE \<noteq> 0)"

definition IS_CLOSURE :: "int \<Rightarrow> bool" where
  "IS_CLOSURE t = (t AND TX_CLOSURE0 \<noteq> 0)"

definition ARITY :: "int \<Rightarrow> int" where
  "ARITY t = (if t AND (TX_FUNCTION0 OR TX_CLOSURE0) \<noteq> 0 then t AND 0x7 else 0)"

definition is_function_type :: "int \<Rightarrow> bool" where
  "is_function_type m = (TX_FUNCTION0 \<le> m \<and> m \<le> TX_FUNCTION6)"

definition is_closure_type :: "int \<Rightarrow> bool" where
  "is_closure_type m = (TX_CLOSURE0 \<le> m \<and> m \<le> TX_CLOSURE6)"

section \<open>The expression tree\<close>

text \<open>
  A \<^verbatim>\<open>tx_expr *\<close> is null or owns a node: its type, its union (a value, or the pointer
  \<^verbatim>\<open>bound\<close>/\<^verbatim>\<open>function\<close>), its children \<^verbatim>\<open>parameters[0..arity-1]\<close> and, for a closure,
  the context kept in \<^verbatim>\<open>parameters[arity]\<close>.
\<close>

datatype payload = Value d_cx | Ptr pointer

datatype tx_expr =
    NULL
  | Expr (etype: int) (union: payload) (parameters: "tx_expr list") (econtext: pointer)

definition value_of :: "machine \<Rightarrow> payload \<Rightarrow> d_cx" where
  "value_of M u = (case u of Value v \<Rightarrow> v | Ptr p \<Rightarrow> pun_value M p)"

definition pointer_of :: "machine \<Rightarrow> payload \<Rightarrow> pointer" where
  "pointer_of M u = (case u of Ptr p \<Rightarrow> p | Value v \<Rightarrow> pun_pointer M v)"

fun set_union :: "payload \<Rightarrow> tx_expr \<Rightarrow> tx_expr" where
  "set_union u NULL = NULL"
| "set_union u (Expr t _ ps c) = Expr t u ps c"

fun set_context :: "pointer \<Rightarrow> tx_expr \<Rightarrow> tx_expr" where
  "set_context c NULL = NULL"
| "set_context c (Expr t u ps _) = Expr t u ps c"

fun set_parameter :: "nat \<Rightarrow> tx_expr \<Rightarrow> tx_expr \<Rightarrow> tx_expr" where
  "set_parameter i p NULL = NULL"
| "set_parameter i p (Expr t u ps c) = Expr t u (ps[i := p]) c"

section \<open>Symbols\<close>

record tx_variable =
  var_name :: string
  var_address :: pointer
  var_type :: int
  var_context :: pointer

text \<open>The parser's state; \<open>s_mallocs\<close> counts the calls of \<^verbatim>\<open>malloc\<close> made so far.\<close>

record state =
  s_start :: string
  s_next :: string
  s_type :: int
  s_value :: double
  s_bound :: pointer
  s_function :: pointer
  s_context :: pointer
  s_lookup :: "tx_variable list"
  s_mallocs :: nat

definition builtin :: "string \<Rightarrow> fnptr \<Rightarrow> int \<Rightarrow> tx_variable" where
  "builtin n f t = \<lparr>var_name = n, var_address = Code f, var_type = t, var_context = NULL_ptr\<rparr>"

definition functions_table :: "tx_variable list" where
  "functions_table =
    [builtin ''I'' fn_i (TX_FUNCTION0 OR TX_FLAG_PURE),
     builtin ''abs'' fn_cabs (TX_FUNCTION1 OR TX_FLAG_PURE),
     builtin ''acos'' libm_cacos (TX_FUNCTION1 OR TX_FLAG_PURE),
     builtin ''acosh'' libm_cacosh (TX_FUNCTION1 OR TX_FLAG_PURE),
     builtin ''arg'' fn_carg (TX_FUNCTION1 OR TX_FLAG_PURE),
     builtin ''asin'' libm_casin (TX_FUNCTION1 OR TX_FLAG_PURE),
     builtin ''asinh'' libm_casinh (TX_FUNCTION1 OR TX_FLAG_PURE),
     builtin ''atan'' libm_catan (TX_FUNCTION1 OR TX_FLAG_PURE),
     builtin ''atanh'' libm_catanh (TX_FUNCTION1 OR TX_FLAG_PURE),
     builtin ''conj'' libm_conj (TX_FUNCTION1 OR TX_FLAG_PURE),
     builtin ''cos'' libm_ccos (TX_FUNCTION1 OR TX_FLAG_PURE),
     builtin ''cosh'' libm_ccosh (TX_FUNCTION1 OR TX_FLAG_PURE),
     builtin ''e'' fn_e (TX_FUNCTION0 OR TX_FLAG_PURE),
     builtin ''exp'' libm_cexp (TX_FUNCTION1 OR TX_FLAG_PURE),
     builtin ''imag'' fn_cimag (TX_FUNCTION1 OR TX_FLAG_PURE),
     builtin ''inf'' fn_infinity (TX_FUNCTION0 OR TX_FLAG_PURE),
     builtin ''log'' libm_clog (TX_FUNCTION1 OR TX_FLAG_PURE),
     builtin ''pi'' fn_pi (TX_FUNCTION0 OR TX_FLAG_PURE),
     builtin ''pow'' libm_cpow (TX_FUNCTION2 OR TX_FLAG_PURE),
     builtin ''real'' fn_creal (TX_FUNCTION1 OR TX_FLAG_PURE),
     builtin ''sin'' libm_csin (TX_FUNCTION1 OR TX_FLAG_PURE),
     builtin ''sinh'' libm_csinh (TX_FUNCTION1 OR TX_FLAG_PURE),
     builtin ''sqrt'' libm_csqrt (TX_FUNCTION1 OR TX_FLAG_PURE),
     builtin ''tan'' libm_ctan (TX_FUNCTION1 OR TX_FLAG_PURE),
     builtin ''tanh'' libm_ctanh (TX_FUNCTION1 OR TX_FLAG_PURE)]"

text \<open>
  C strings: the character at an index (the terminating zero from the end on), and
  \<^verbatim>\<open>strncmp\<close>, which stops at the first difference, at a zero, or after \<open>n\<close> characters.
\<close>

definition char_at :: "string \<Rightarrow> nat \<Rightarrow> int" where
  "char_at cs i = (if i < length cs then of_char (cs ! i) else 0)"

fun strncmp :: "string \<Rightarrow> string \<Rightarrow> nat \<Rightarrow> int" where
  "strncmp a b 0 = 0"
| "strncmp a b (Suc n) =
     (let x = char_at a 0; y = char_at b 0
      in if x \<noteq> y then x - y
         else if x = 0 then 0
         else strncmp (tl a) (tl b) n)"

function find_builtin_loop :: "string \<Rightarrow> nat \<Rightarrow> int \<Rightarrow> int \<Rightarrow> tx_variable option" where
  "find_builtin_loop name len imin imax =
     (if imax \<ge> imin then
        let i = imin + ((imax - imin) div 2);
            c0 = strncmp name (var_name (functions_table ! nat i)) len;
            c = (if c0 = 0 then 0 - char_at (var_name (functions_table ! nat i)) len else c0)
        in if c = 0 then Some (functions_table ! nat i)
           else if c > 0 then find_builtin_loop name len (i + 1) imax
           else find_builtin_loop name len imin (i - 1)
      else None)"
  by pat_completeness auto
termination
proof (relation "measure (\<lambda>(name, len, imin, imax). nat (imax - imin + 1))")
  show "wf (measure (\<lambda>(name, len, imin, imax). nat (imax - imin + 1)))"
    by simp
next
  fix name :: string and len :: nat and imin imax i :: int
  assume "imin \<le> imax" and "i = imin + (imax - imin) div 2"
  then show "((name, len, i + 1, imax), name, len, imin, imax)
      \<in> measure (\<lambda>(name, len, imin, imax). nat (imax - imin + 1))"
    by simp
next
  fix name :: string and len :: nat and imin imax i :: int
  assume "imin \<le> imax" and "i = imin + (imax - imin) div 2"
  then show "((name, len, imin, i - 1), name, len, imin, imax)
      \<in> measure (\<lambda>(name, len, imin, imax). nat (imax - imin + 1))"
    by simp
qed

declare find_builtin_loop.simps [simp del]

definition find_builtin :: "string \<Rightarrow> nat \<Rightarrow> tx_variable option" where
  "find_builtin name len = find_builtin_loop name len 0 (int (length functions_table) - 1)"

fun find_lookup_loop :: "tx_variable list \<Rightarrow> string \<Rightarrow> nat \<Rightarrow> tx_variable option" where
  "find_lookup_loop [] name len = None"
| "find_lookup_loop (var # vars) name len =
     (if strncmp name (var_name var) len = 0 \<and> char_at (var_name var) len = 0
      then Some var
      else find_lookup_loop vars name len)"

definition find_lookup :: "state \<Rightarrow> string \<Rightarrow> nat \<Rightarrow> tx_variable option" where
  "find_lookup s name len = find_lookup_loop (s_lookup s) name len"

section \<open>The tokenizer\<close>

text \<open>\<^verbatim>\<open>isalpha\<close> and \<^verbatim>\<open>isdigit\<close> in the C locale.\<close>

definition isdigit :: "char \<Rightarrow> bool" where
  "isdigit c = ((48::nat) \<le> of_char c \<and> (of_char c :: nat) \<le> 57)"

definition isalpha :: "char \<Rightarrow> bool" where
  "isalpha c = (((65::nat) \<le> of_char c \<and> (of_char c :: nat) \<le> 90)
              \<or> ((97::nat) \<le> of_char c \<and> (of_char c :: nat) \<le> 122))"

definition ident_char :: "char \<Rightarrow> bool" where
  "ident_char c = (isalpha c \<or> isdigit c \<or> c = CHR ''_'')"

text \<open>The token an identifier resolves to: the switch on the symbol's type.\<close>

definition token_of_symbol :: "tx_variable \<Rightarrow> state \<Rightarrow> state" where
  "token_of_symbol var s =
     (let m = TYPE_MASK (var_type var)
      in if m = TX_VARIABLE then s\<lparr>s_type := TOK_VARIABLE, s_bound := var_address var\<rparr>
         else if is_closure_type m then
           s\<lparr>s_context := var_context var, s_type := var_type var, s_function := var_address var\<rparr>
         else if is_function_type m then
           s\<lparr>s_type := var_type var, s_function := var_address var\<rparr>
         else s)"

text \<open>The three kinds of lexeme \<^verbatim>\<open>tx_next_token\<close> reads: a number, a name, a character.\<close>

definition read_number :: "machine \<Rightarrow> state \<Rightarrow> state" where
  "read_number M s =
     (let (v, n) = strtod M (s_next s);
          rest = drop n (s_next s)
      in case rest of
           [] \<Rightarrow> s\<lparr>s_value := v, s_next := rest, s_type := TOK_NUMBER_R\<rparr>
         | d # rest' \<Rightarrow>
             if d = CHR ''I''
             then s\<lparr>s_value := v, s_next := rest', s_type := TOK_NUMBER_I\<rparr>
             else s\<lparr>s_value := v, s_next := rest, s_type := TOK_NUMBER_R\<rparr>)"

definition read_identifier :: "state \<Rightarrow> state" where
  "read_identifier s =
     (let start = s_next s;
          rest = dropWhile ident_char start;
          len = length start - length rest;
          s1 = s\<lparr>s_next := rest\<rparr>
      in case (case find_lookup s1 start len of
                 Some var \<Rightarrow> Some var
               | None \<Rightarrow> find_builtin start len) of
           None \<Rightarrow> s1\<lparr>s_type := TOK_ERROR\<rparr>
         | Some var \<Rightarrow> token_of_symbol var s1)"

definition read_operator :: "char \<Rightarrow> string \<Rightarrow> state \<Rightarrow> state" where
  "read_operator c cs s =
     (let s1 = s\<lparr>s_next := cs\<rparr>
      in if c = CHR ''+'' then s1\<lparr>s_type := TOK_INFIX, s_function := Code fn_add\<rparr>
         else if c = CHR ''-'' then s1\<lparr>s_type := TOK_INFIX, s_function := Code fn_sub\<rparr>
         else if c = CHR ''*'' then s1\<lparr>s_type := TOK_INFIX, s_function := Code fn_mul\<rparr>
         else if c = CHR ''/'' then s1\<lparr>s_type := TOK_INFIX, s_function := Code fn_divide\<rparr>
         else if c = CHR ''^'' then s1\<lparr>s_type := TOK_INFIX, s_function := Code libm_cpow\<rparr>
         else if c = CHR ''('' then s1\<lparr>s_type := TOK_OPEN\<rparr>
         else if c = CHR '')'' then s1\<lparr>s_type := TOK_CLOSE\<rparr>
         else if c = CHR '','' then s1\<lparr>s_type := TOK_SEP\<rparr>
         else if c = CHR '' '' \<or> c = CHR 0x09 \<or> c = CHR 0x0A \<or> c = CHR 0x0D then s1
         else s1\<lparr>s_type := TOK_ERROR\<rparr>)"

text \<open>One round of the loop of \<^verbatim>\<open>tx_next_token\<close>.\<close>

definition token_step :: "machine \<Rightarrow> state \<Rightarrow> state" where
  "token_step M s =
     (case s_next s of
        [] \<Rightarrow> s\<lparr>s_type := TOK_END\<rparr>
      | c # cs \<Rightarrow>
          if c = CHR 0x00 then s\<lparr>s_type := TOK_END\<rparr>
          else if isdigit c \<or> c = CHR ''.'' then read_number M s
          else if isalpha c then read_identifier s
          else read_operator c cs s)"

lemma s_next_token_of_symbol [simp]: "s_next (token_of_symbol var s) = s_next s"
  by (simp add: token_of_symbol_def Let_def)

lemma s_type_read_number: "s_type (read_number M s) \<noteq> TOK_NULL"
  by (simp add: read_number_def Let_def split: prod.splits list.splits)

lemma s_next_read_identifier: "s_next (read_identifier s) = dropWhile ident_char (s_next s)"
  by (simp add: read_identifier_def Let_def split: option.splits)

lemma s_next_read_operator: "s_next (read_operator c cs s) = cs"
  by (simp add: read_operator_def Let_def)

lemma token_step_progress:
  assumes "s_type (token_step M s) = TOK_NULL"
  shows "length (s_next (token_step M s)) < length (s_next s)"
proof (cases "s_next s")
  case Nil
  with assms show ?thesis by (simp add: token_step_def)
next
  case (Cons c cs)
  have nul: "c \<noteq> CHR 0x00"
    using assms Cons by (auto simp: token_step_def)
  have num: "\<not> (isdigit c \<or> c = CHR ''.'')"
    using assms Cons nul s_type_read_number[of M s] by (auto simp: token_step_def)
  show ?thesis
  proof (cases "isalpha c")
    case True
    then have "token_step M s = read_identifier s"
      using Cons nul num by (simp add: token_step_def)
    moreover have "length (dropWhile ident_char (c # cs)) < length (c # cs)"
      using True length_dropWhile_le[of ident_char cs] by (simp add: ident_char_def)
    ultimately show ?thesis
      using Cons by (simp add: s_next_read_identifier)
  next
    case False
    then have "token_step M s = read_operator c cs s"
      using Cons nul num by (simp add: token_step_def)
    then show ?thesis
      using Cons by (simp add: s_next_read_operator)
  qed
qed

function token_loop :: "machine \<Rightarrow> state \<Rightarrow> state" where
  "token_loop M s =
     (let s' = token_step M s
      in if s_type s' = TOK_NULL then token_loop M s' else s')"
  by pat_completeness auto
termination
  by (relation "measure (\<lambda>(M, s). length (s_next s))") (auto dest: token_step_progress)

declare token_loop.simps [simp del]

definition tx_next_token :: "machine \<Rightarrow> state \<Rightarrow> state" where
  "tx_next_token M s = token_loop M (s\<lparr>s_type := TOK_NULL\<rparr>)"

section \<open>The parser\<close>

text \<open>
  \<^verbatim>\<open>new_expr\<close> asks \<^verbatim>\<open>malloc\<close> for a node and returns null when it gets none. A new
  node is zeroed: its children are null, its union holds the null pointer.
\<close>

definition new_expr :: "machine \<Rightarrow> int \<Rightarrow> tx_expr list option \<Rightarrow> state \<Rightarrow> tx_expr \<times> state" where
  "new_expr M type params s =
     (let arity = nat (ARITY type);
          s' = s\<lparr>s_mallocs := Suc (s_mallocs s)\<rparr>
      in if malloc_ok M (s_mallocs s)
         then (Expr type (Ptr NULL_ptr)
                 (case params of
                    None \<Rightarrow> replicate arity NULL
                  | Some ps \<Rightarrow> take arity ps)
                 NULL_ptr, s')
         else (NULL, s'))"

text \<open>A function or closure node for the token at hand, before its arguments are read.\<close>

definition call_node :: "state \<Rightarrow> tx_expr \<Rightarrow> tx_expr" where
  "call_node s ret =
     (let ret = set_union (Ptr (s_function s)) ret
      in if IS_CLOSURE (s_type s) then set_context (s_context s) ret else ret)"

text \<open>The loop over the signs at the start of \<^verbatim>\<open>power\<close>.\<close>

definition is_sign :: "state \<Rightarrow> bool" where
  "is_sign s = (s_type s = TOK_INFIX \<and> (s_function s = Code fn_add \<or> s_function s = Code fn_sub))"

text \<open>
  The token at hand lets the parser read on: an operator, a separator, an opening
  parenthesis or a function. Reading the next token after such a token shortens the
  input or ends in a token that is none of them.
\<close>

definition active :: "int \<Rightarrow> bool" where
  "active t = (t = TOK_INFIX \<or> t = TOK_SEP \<or> TYPE_MASK t = TOK_OPEN
     \<or> is_function_type (TYPE_MASK t) \<or> is_closure_type (TYPE_MASK t))"

definition weight :: "state \<Rightarrow> nat" where
  "weight s = 2 * length (s_next s) + (if active (s_type s) then 1 else 0)"

lemma token_step_length: "length (s_next (token_step M s)) \<le> length (s_next s)"
proof (cases "s_next s")
  case Nil
  then show ?thesis by (simp add: token_step_def)
next
  case (Cons c cs)
  obtain v n where vn: "strtod M (s_next s) = (v, n)"
    by (cases "strtod M (s_next s)")
  have "length (drop n (s_next s)) \<le> length (s_next s)"
    by simp
  then have "length (s_next (read_number M s)) \<le> length (s_next s)"
    using vn by (cases "drop n (s_next s)") (auto simp: read_number_def Let_def)
  moreover have "length (s_next (read_identifier s)) \<le> length (s_next s)"
    by (simp add: s_next_read_identifier length_dropWhile_le)
  moreover have "length (s_next (read_operator c cs s)) \<le> length (s_next s)"
    using Cons by (simp add: s_next_read_operator)
  ultimately show ?thesis
    using Cons by (simp add: token_step_def)
qed

lemma token_step_active:
  assumes "active (s_type (token_step M s))" and "\<not> active (s_type s)"
  shows "length (s_next (token_step M s)) < length (s_next s)"
proof (cases "s_next s")
  case Nil
  with assms show ?thesis
    by (simp add: token_step_def active_def TYPE_MASK_def is_function_type_def is_closure_type_def)
next
  case (Cons c cs)
  have nul: "c \<noteq> CHR 0x00"
    using assms Cons
    by (auto simp: token_step_def active_def TYPE_MASK_def is_function_type_def is_closure_type_def)
  have "\<not> active (s_type (read_number M s))"
    by (simp add: read_number_def Let_def active_def TYPE_MASK_def is_function_type_def
        is_closure_type_def split: prod.splits list.splits)
  then have num: "\<not> (isdigit c \<or> c = CHR ''.'')"
    using assms Cons nul by (auto simp: token_step_def)
  show ?thesis
  proof (cases "isalpha c")
    case True
    then have "token_step M s = read_identifier s"
      using Cons nul num by (simp add: token_step_def)
    moreover have "length (dropWhile ident_char (c # cs)) < length (c # cs)"
      using True length_dropWhile_le[of ident_char cs] by (simp add: ident_char_def)
    ultimately show ?thesis
      using Cons by (simp add: s_next_read_identifier)
  next
    case False
    then have "token_step M s = read_operator c cs s"
      using Cons nul num by (simp add: token_step_def)
    then show ?thesis
      using Cons by (simp add: s_next_read_operator)
  qed
qed

lemma token_loop_length:
  "length (s_next (token_loop M s)) \<le> length (s_next s)"
proof (induction M s rule: token_loop.induct)
  case (1 M s)
  show ?case
  proof (cases "s_type (token_step M s) = TOK_NULL")
    case True
    then have "length (s_next (token_loop M (token_step M s))) \<le> length (s_next (token_step M s))"
      using "1.IH" by simp
    moreover have "token_loop M s = token_loop M (token_step M s)"
      using True by (subst token_loop.simps) (simp add: Let_def)
    ultimately show ?thesis
      using token_step_length[of M s] by simp
  next
    case False
    then have "token_loop M s = token_step M s"
      by (subst token_loop.simps) (simp add: Let_def)
    then show ?thesis
      using token_step_length[of M s] by simp
  qed
qed

lemma token_loop_active:
  "active (s_type (token_loop M s)) \<Longrightarrow> \<not> active (s_type s)
   \<Longrightarrow> length (s_next (token_loop M s)) < length (s_next s)"
proof (induction M s rule: token_loop.induct)
  case (1 M s)
  show ?case
  proof (cases "s_type (token_step M s) = TOK_NULL")
    case True
    have eq: "token_loop M s = token_loop M (token_step M s)"
      using True by (subst token_loop.simps) (simp add: Let_def)
    have "length (s_next (token_loop M (token_step M s))) \<le> length (s_next (token_step M s))"
      by (rule token_loop_length)
    moreover have "length (s_next (token_step M s)) < length (s_next s)"
      using True by (rule token_step_progress)
    ultimately show ?thesis
      using eq by simp
  next
    case False
    then have "token_loop M s = token_step M s"
      by (subst token_loop.simps) (simp add: Let_def)
    then show ?thesis
      using "1.prems" token_step_active[of M s] by simp
  qed
qed

lemma weight_next_token: "weight (tx_next_token M s) \<le> weight s"
proof -
  let ?s0 = "s\<lparr>s_type := TOK_NULL\<rparr>"
  have na: "\<not> active (s_type ?s0)"
    by (simp add: active_def TYPE_MASK_def is_function_type_def is_closure_type_def)
  have le: "length (s_next (token_loop M ?s0)) \<le> length (s_next s)"
    using token_loop_length[of M ?s0] by simp
  show ?thesis
  proof (cases "active (s_type (token_loop M ?s0))")
    case True
    then have "length (s_next (token_loop M ?s0)) < length (s_next s)"
      using token_loop_active[of M ?s0] na by simp
    then show ?thesis
      by (simp add: weight_def tx_next_token_def)
  next
    case False
    then show ?thesis
      using le by (simp add: weight_def tx_next_token_def)
  qed
qed

lemma weight_next_token_active: "active (s_type s) \<Longrightarrow> weight (tx_next_token M s) < weight s"
proof -
  assume a: "active (s_type s)"
  let ?s0 = "s\<lparr>s_type := TOK_NULL\<rparr>"
  have na: "\<not> active (s_type ?s0)"
    by (simp add: active_def TYPE_MASK_def is_function_type_def is_closure_type_def)
  have le: "length (s_next (token_loop M ?s0)) \<le> length (s_next s)"
    using token_loop_length[of M ?s0] by simp
  show ?thesis
  proof (cases "active (s_type (token_loop M ?s0))")
    case True
    then have "length (s_next (token_loop M ?s0)) < length (s_next s)"
      using token_loop_active[of M ?s0] na by simp
    then show ?thesis
      using a by (simp add: weight_def tx_next_token_def)
  next
    case False
    then show ?thesis
      using le a by (simp add: weight_def tx_next_token_def)
  qed
qed

function power_signs :: "machine \<Rightarrow> int \<Rightarrow> state \<Rightarrow> int \<times> state" where
  "power_signs M sign s =
     (if is_sign s
      then power_signs M (if s_function s = Code fn_sub then - sign else sign) (tx_next_token M s)
      else (sign, s))"
  by pat_completeness auto
termination
  by (relation "measure (\<lambda>(M, sign, s). weight s)")
     (auto simp: is_sign_def active_def intro: weight_next_token_active)

declare power_signs.simps [simp del]

text \<open>
  The grammar, one function for each production and one for each of its loops. Every
  function returns the node it built, null after a failed allocation, and the state.
\<close>

definition binary_node :: "machine \<Rightarrow> pointer \<Rightarrow> tx_expr \<Rightarrow> tx_expr \<Rightarrow> state \<Rightarrow> tx_expr \<times> state" where
  "binary_node M t l r s =
     (let (ret, s1) = new_expr M (TX_FUNCTION2 OR TX_FLAG_PURE) (Some [l, r]) s
      in if ret = NULL then (NULL, s1) else (set_union (Ptr t) ret, s1))"

text \<open>The cases of \<^verbatim>\<open>base\<close> that read no operand: a number or a variable, a call of
  arity 0 with its optional parentheses, and the token no production starts with.\<close>

definition base_leaf :: "machine \<Rightarrow> int \<Rightarrow> payload \<Rightarrow> state \<Rightarrow> tx_expr \<times> state" where
  "base_leaf M type u s =
     (let (ret, s1) = new_expr M type None s
      in if ret = NULL then (NULL, s1)
         else (set_union u ret, tx_next_token M s1))"

definition base_call0 :: "machine \<Rightarrow> state \<Rightarrow> tx_expr \<times> state" where
  "base_call0 M s =
     (let (ret, s1) = new_expr M (s_type s) None s
      in if ret = NULL then (NULL, s1)
         else
           (let ret = call_node s1 ret;
                s2 = tx_next_token M s1
            in if s_type s2 = TOK_OPEN then
                 (let s3 = tx_next_token M s2
                  in if s_type s3 \<noteq> TOK_CLOSE then (ret, s3\<lparr>s_type := TOK_ERROR\<rparr>)
                     else (ret, tx_next_token M s3))
               else (ret, s2)))"

definition base_default :: "machine \<Rightarrow> state \<Rightarrow> tx_expr \<times> state" where
  "base_default M s =
     (let (ret, s1) = new_expr M 0 None s
      in if ret = NULL then (NULL, s1)
         else (set_union (Value NAN) ret, s1\<lparr>s_type := TOK_ERROR\<rparr>))"

function base :: "machine \<Rightarrow> state \<Rightarrow> tx_expr \<times> state"
  and base_args :: "machine \<Rightarrow> nat \<Rightarrow> nat \<Rightarrow> tx_expr \<Rightarrow> state \<Rightarrow> tx_expr \<times> nat \<times> state"
  and power_tx :: "machine \<Rightarrow> state \<Rightarrow> tx_expr \<times> state"
  and factor :: "machine \<Rightarrow> state \<Rightarrow> tx_expr \<times> state"
  and factor_loop :: "machine \<Rightarrow> tx_expr \<Rightarrow> state \<Rightarrow> tx_expr \<times> state"
  and term_tx :: "machine \<Rightarrow> state \<Rightarrow> tx_expr \<times> state"
  and term_loop :: "machine \<Rightarrow> tx_expr \<Rightarrow> state \<Rightarrow> tx_expr \<times> state"
  and expr :: "machine \<Rightarrow> state \<Rightarrow> tx_expr \<times> state"
  and expr_loop :: "machine \<Rightarrow> tx_expr \<Rightarrow> state \<Rightarrow> tx_expr \<times> state"
  and list_tx :: "machine \<Rightarrow> state \<Rightarrow> tx_expr \<times> state"
  and list_loop :: "machine \<Rightarrow> tx_expr \<Rightarrow> state \<Rightarrow> tx_expr \<times> state"
where
  "base M s =
     (let m = TYPE_MASK (s_type s)
      in if m = TOK_NUMBER_R then base_leaf M TX_CONSTANT (Value (cx_of_double (s_value s))) s
         else if m = TOK_NUMBER_I then base_leaf M TX_CONSTANT (Value (mul_I M (s_value s))) s
         else if m = TOK_VARIABLE then base_leaf M TX_VARIABLE (Ptr (s_bound s)) s
         else if m = TX_FUNCTION0 \<or> m = TX_CLOSURE0 then base_call0 M s
         else if m = TX_FUNCTION1 \<or> m = TX_CLOSURE1 then
           (let (ret, s1) = new_expr M (s_type s) None s
            in if ret = NULL then (NULL, s1)
               else
                 (let ret = call_node s1 ret;
                      (p, s2) = power_tx M (tx_next_token M s1)
                  in if p = NULL then (NULL, s2)
                     else (set_parameter 0 p ret, s2)))
         else if m = TX_FUNCTION2 \<or> m = TX_FUNCTION3 \<or> m = TX_FUNCTION4 \<or> m = TX_FUNCTION5
                 \<or> m = TX_FUNCTION6 \<or> m = TX_CLOSURE2 \<or> m = TX_CLOSURE3 \<or> m = TX_CLOSURE4
                 \<or> m = TX_CLOSURE5 \<or> m = TX_CLOSURE6 then
           (let arity = nat (ARITY (s_type s));
                (ret, s1) = new_expr M (s_type s) None s
            in if ret = NULL then (NULL, s1)
               else
                 (let ret = call_node s1 ret;
                      s2 = tx_next_token M s1
                  in if s_type s2 \<noteq> TOK_OPEN then (ret, s2\<lparr>s_type := TOK_ERROR\<rparr>)
                     else
                       (let (ret, i, s3) = base_args M arity 0 ret s2
                        in if ret = NULL then (NULL, s3)
                           else if s_type s3 \<noteq> TOK_CLOSE \<or> int i \<noteq> int arity - 1
                           then (ret, s3\<lparr>s_type := TOK_ERROR\<rparr>)
                           else (ret, tx_next_token M s3))))
         else if m = TOK_OPEN then
           (let (ret, s1) = list_tx M (tx_next_token M s)
            in if ret = NULL then (NULL, s1)
               else if s_type s1 \<noteq> TOK_CLOSE then (ret, s1\<lparr>s_type := TOK_ERROR\<rparr>)
               else (ret, tx_next_token M s1))
         else base_default M s)"
| "base_args M arity i ret s =
     (if i < arity then
        (let (p, s1) = expr M (tx_next_token M s)
         in if p = NULL then (NULL, i, s1)
            else if s_type s1 \<noteq> TOK_SEP then (set_parameter i p ret, i, s1)
            else base_args M arity (Suc i) (set_parameter i p ret) s1)
      else (ret, i, s))"
| "power_tx M s =
     (let (sign, s1) = power_signs M 1 s
      in if sign = 1 then base M s1
         else
           (let (b, s2) = base M s1
            in if b = NULL then (NULL, s2)
               else
                 (let (ret, s3) = new_expr M (TX_FUNCTION1 OR TX_FLAG_PURE) (Some [b]) s2
                  in if ret = NULL then (NULL, s3)
                     else (set_union (Ptr (Code fn_negate)) ret, s3))))"
| "factor M s =
     (let (ret, s1) = power_tx M s
      in if ret = NULL then (NULL, s1) else factor_loop M ret s1)"
| "factor_loop M ret s =
     (if s_type s = TOK_INFIX \<and> s_function s = Code libm_cpow then
        (let t = s_function s;
             (p, s1) = power_tx M (tx_next_token M s)
         in if p = NULL then (NULL, s1)
            else
              (let (ret, s2) = binary_node M t ret p s1
               in if ret = NULL then (NULL, s2) else factor_loop M ret s2))
      else (ret, s))"
| "term_tx M s =
     (let (ret, s1) = factor M s
      in if ret = NULL then (NULL, s1) else term_loop M ret s1)"
| "term_loop M ret s =
     (if s_type s = TOK_INFIX \<and> (s_function s = Code fn_mul \<or> s_function s = Code fn_divide) then
        (let t = s_function s;
             (f, s1) = factor M (tx_next_token M s)
         in if f = NULL then (NULL, s1)
            else
              (let (ret, s2) = binary_node M t ret f s1
               in if ret = NULL then (NULL, s2) else term_loop M ret s2))
      else (ret, s))"
| "expr M s =
     (let (ret, s1) = term_tx M s
      in if ret = NULL then (NULL, s1) else expr_loop M ret s1)"
| "expr_loop M ret s =
     (if s_type s = TOK_INFIX \<and> (s_function s = Code fn_add \<or> s_function s = Code fn_sub) then
        (let t = s_function s;
             (te, s1) = term_tx M (tx_next_token M s)
         in if te = NULL then (NULL, s1)
            else
              (let (ret, s2) = binary_node M t ret te s1
               in if ret = NULL then (NULL, s2) else expr_loop M ret s2))
      else (ret, s))"
| "list_tx M s =
     (let (ret, s1) = expr M s
      in if ret = NULL then (NULL, s1) else list_loop M ret s1)"
| "list_loop M ret s =
     (if s_type s = TOK_SEP then
        (let (e, s1) = expr M (tx_next_token M s)
         in if e = NULL then (NULL, s1)
            else
              (let (ret, s2) = binary_node M (Code fn_comma) ret e s1
               in if ret = NULL then (NULL, s2) else list_loop M ret s2))
      else (ret, s))"
  by pat_completeness auto

fun parser_rank ::
  "(((machine \<times> state) + (machine \<times> nat \<times> nat \<times> tx_expr \<times> state))
     + ((machine \<times> state) + ((machine \<times> state) + (machine \<times> tx_expr \<times> state))))
   + (((machine \<times> state) + ((machine \<times> tx_expr \<times> state) + (machine \<times> state)))
     + ((machine \<times> tx_expr \<times> state) + ((machine \<times> state) + (machine \<times> tx_expr \<times> state))))
   \<Rightarrow> nat \<times> nat \<times> nat" where
  "parser_rank (Inl (Inl (Inl (M, s)))) = (weight s, 0, 0)"
| "parser_rank (Inl (Inl (Inr (M, arity, i, ret, s)))) = (weight s, 10, arity - i)"
| "parser_rank (Inl (Inr (Inl (M, s)))) = (weight s, 1, 0)"
| "parser_rank (Inl (Inr (Inr (Inl (M, s))))) = (weight s, 3, 0)"
| "parser_rank (Inl (Inr (Inr (Inr (M, ret, s))))) = (weight s, 2, 0)"
| "parser_rank (Inr (Inl (Inl (M, s)))) = (weight s, 5, 0)"
| "parser_rank (Inr (Inl (Inr (Inl (M, ret, s))))) = (weight s, 4, 0)"
| "parser_rank (Inr (Inl (Inr (Inr (M, s))))) = (weight s, 7, 0)"
| "parser_rank (Inr (Inr (Inl (M, ret, s)))) = (weight s, 6, 0)"
| "parser_rank (Inr (Inr (Inr (Inl (M, s))))) = (weight s, 9, 0)"
| "parser_rank (Inr (Inr (Inr (Inr (M, ret, s))))) = (weight s, 8, 0)"


abbreviation (input) parser_dom where
  "parser_dom \<equiv> base_base_args_power_tx_factor_factor_loop_term_tx_term_loop_expr_expr_loop_list_tx_list_loop_dom"

lemma weight_mallocs [simp]: "weight (s\<lparr>s_mallocs := n\<rparr>) = weight s"
  by (simp add: weight_def)

lemma weight_new_expr: "weight (snd (new_expr M t ps s)) = weight s"
  by (simp add: new_expr_def Let_def)

lemma weight_new_expr_eq: "new_expr M t ps s = (r, s') \<Longrightarrow> weight s' = weight s"
  using weight_new_expr[of M t ps s] by simp

lemma weight_binary_node_eq: "binary_node M t l r s = (n, s') \<Longrightarrow> weight s' = weight s"
  by (auto simp: binary_node_def Let_def split: prod.splits if_splits dest: weight_new_expr_eq)

lemma weight_error: "weight (s\<lparr>s_type := TOK_ERROR\<rparr>) \<le> weight s"
  by (simp add: weight_def active_def TYPE_MASK_def is_function_type_def is_closure_type_def)

lemma weight_base_leaf: "weight (snd (base_leaf M t u s)) \<le> weight s"
proof -
  obtain r s1 where ne: "new_expr M t None s = (r, s1)"
    by (cases "new_expr M t None s")
  have "weight s1 = weight s"
    using ne by (rule weight_new_expr_eq)
  then show ?thesis
    using ne weight_next_token[of M s1] by (simp add: base_leaf_def)
qed

lemma weight_base_default: "weight (snd (base_default M s)) \<le> weight s"
proof -
  obtain r s1 where ne: "new_expr M 0 None s = (r, s1)"
    by (cases "new_expr M 0 None s")
  have "weight s1 = weight s"
    using ne by (rule weight_new_expr_eq)
  then show ?thesis
    using ne weight_error[of s1] by (simp add: base_default_def)
qed

lemma weight_base_call0: "weight (snd (base_call0 M s)) \<le> weight s"
proof -
  obtain r s1 where ne: "new_expr M (s_type s) None s = (r, s1)"
    by (cases "new_expr M (s_type s) None s")
  have w1: "weight s1 = weight s"
    using ne by (rule weight_new_expr_eq)
  let ?s2 = "tx_next_token M s1"
  let ?s3 = "tx_next_token M ?s2"
  have w2: "weight ?s2 \<le> weight s"
    using weight_next_token[of M s1] w1 by simp
  have w3: "weight ?s3 \<le> weight s"
    using weight_next_token[of M ?s2] w2 by simp
  have w4: "weight (tx_next_token M ?s3) \<le> weight s"
    using weight_next_token[of M ?s3] w3 by simp
  have w5: "weight (?s3\<lparr>s_type := TOK_ERROR\<rparr>) \<le> weight s"
    using weight_error[of ?s3] w3 by simp
  show ?thesis
    using ne w1 w2 w4 w5 by (simp add: base_call0_def Let_def)
qed

lemma weight_power_signs: "weight (snd (power_signs M sign s)) \<le> weight s"
proof (induction M sign s rule: power_signs.induct)
  case (1 M sign s)
  show ?case
  proof (cases "is_sign s")
    case True
    then have "weight (snd (power_signs M sign s))
        \<le> weight (tx_next_token M s)"
      using "1.IH" by (subst power_signs.simps) simp
    then show ?thesis
      using weight_next_token[of M s] by simp
  next
    case False
    then show ?thesis
      by (subst power_signs.simps) simp
  qed
qed

lemma loop_weight_step:
  assumes x: "weight (snd X) \<le> w"
    and l: "\<And>p s1 ret' s2. X = (p, s1) \<Longrightarrow> p \<noteq> NULL \<Longrightarrow> binary_node M t ret p s1 = (ret', s2)
       \<Longrightarrow> ret' \<noteq> NULL \<Longrightarrow> weight (snd (L ret' s2)) \<le> weight s2"
  shows "weight (snd (let (p, s1) = X
                      in if p = NULL then (NULL, s1)
                         else (let (ret', s2) = binary_node M t ret p s1
                               in if ret' = NULL then (NULL, s2) else L ret' s2))) \<le> w"
proof -
  obtain p s1 where X: "X = (p, s1)"
    by (cases X)
  obtain ret' s2 where b: "binary_node M t ret p s1 = (ret', s2)"
    by (cases "binary_node M t ret p s1")
  have w1: "weight s1 \<le> w"
    using x X by simp
  have w2: "weight s2 = weight s1"
    using b by (rule weight_binary_node_eq)
  show ?thesis
  proof (cases "p = NULL")
    case True
    then show ?thesis using X w1 by simp
  next
    case False
    show ?thesis
    proof (cases "ret' = NULL")
      case True
      then show ?thesis using X b w1 w2 False by simp
    next
      case True2: False
      have "weight (snd (L ret' s2)) \<le> weight s2"
        using X False b True2 by (rule l)
      then show ?thesis using X b w1 w2 False True2 by simp
    qed
  qed
qed

lemma head_weight_step:
  assumes x: "weight (snd X) \<le> weight s"
    and l: "\<And>r s1. X = (r, s1) \<Longrightarrow> r \<noteq> NULL \<Longrightarrow> weight (snd (L r s1)) \<le> weight s1"
  shows "weight (snd (let (ret, s1) = X in if ret = NULL then (NULL, s1) else L ret s1)) \<le> weight s"
proof -
  obtain r s1 where X: "X = (r, s1)"
    by (cases X)
  have w1: "weight s1 \<le> weight s"
    using x X by simp
  show ?thesis
  proof (cases "r = NULL")
    case True
    then show ?thesis using X w1 by simp
  next
    case False
    have "weight (snd (L r s1)) \<le> weight s1"
      using X False by (rule l)
    then show ?thesis using X w1 False by simp
  qed
qed


lemma base_weight_leaf_case:
  assumes dom: "parser_dom (Inl (Inl (Inl (M, s))))"
    and m: "TYPE_MASK (s_type s) = 29 \<or> TYPE_MASK (s_type s) = 30 \<or> TYPE_MASK (s_type s) = 31
      \<or> TYPE_MASK (s_type s) = 8 \<or> TYPE_MASK (s_type s) = 16"
  shows "weight (snd (base M s)) \<le> weight s"
  using m weight_base_leaf weight_base_call0
  apply (elim disjE)
      apply (simp_all add: base.psimps[OF dom] Let_def)
  done

lemma base_weight_default_case:
  assumes dom: "parser_dom (Inl (Inl (Inl (M, s))))"
    and m: "TYPE_MASK (s_type s) \<notin> {29, 30, 31, 8, 16, 9, 17, 10, 11, 12, 13, 14, 18, 19, 20, 21, 22, 27}"
  shows "weight (snd (base M s)) \<le> weight s"
  using m weight_base_default
  by (simp add: base.psimps[OF dom] Let_def)


lemma base_weight_call1_case:
  assumes dom: "parser_dom (Inl (Inl (Inl (M, s))))"
    and m: "TYPE_MASK (s_type s) = 9 \<or> TYPE_MASK (s_type s) = 17"
    and ih: "\<And>r s1. new_expr M (s_type s) None s = (r, s1) \<Longrightarrow> r \<noteq> NULL
       \<Longrightarrow> weight (snd (power_tx M (tx_next_token M s1))) \<le> weight (tx_next_token M s1)"
  shows "weight (snd (base M s)) \<le> weight s"
proof -
  obtain r s1 where ne: "new_expr M (s_type s) None s = (r, s1)"
    by (cases "new_expr M (s_type s) None s")
  have w1: "weight s1 = weight s"
    using ne by (rule weight_new_expr_eq)
  obtain p s2 where p: "power_tx M (tx_next_token M s1) = (p, s2)"
    by (cases "power_tx M (tx_next_token M s1)")
  have eq: "base M s = (if r = NULL then (NULL, s1)
                        else if p = NULL then (NULL, s2)
                        else (set_parameter 0 p (call_node s1 r), s2))"
    using m ne p
    apply (elim disjE)
     apply (simp_all add: base.psimps[OF dom] Let_def)
    done
  show ?thesis
  proof (cases "r = NULL")
    case True
    then show ?thesis
      using eq w1 by simp
  next
    case False
    have "weight (snd (power_tx M (tx_next_token M s1))) \<le> weight (tx_next_token M s1)"
      using ne False by (rule ih)
    then have "weight s2 \<le> weight s"
      using weight_next_token[of M s1] w1 p by simp
    then show ?thesis
      using eq False by simp
  qed
qed

lemma base_weight_open_case:
  assumes dom: "parser_dom (Inl (Inl (Inl (M, s))))"
    and m: "TYPE_MASK (s_type s) = 27"
    and ih: "weight (snd (list_tx M (tx_next_token M s))) \<le> weight (tx_next_token M s)"
  shows "weight (snd (base M s)) \<le> weight s"
proof -
  obtain r s1 where l: "list_tx M (tx_next_token M s) = (r, s1)"
    by (cases "list_tx M (tx_next_token M s)")
  have eq: "base M s = (if r = NULL then (NULL, s1)
                        else if s_type s1 \<noteq> TOK_CLOSE then (r, s1\<lparr>s_type := TOK_ERROR\<rparr>)
                        else (r, tx_next_token M s1))"
    using m l by (simp add: base.psimps[OF dom] Let_def)
  have w: "weight s1 \<le> weight s"
    using ih l weight_next_token[of M s] by simp
  show ?thesis
    using eq w weight_error[of s1] weight_next_token[of M s1] by simp
qed

lemma base_weight_calln_case:
  assumes dom: "parser_dom (Inl (Inl (Inl (M, s))))"
    and m: "TYPE_MASK (s_type s) = 10 \<or> TYPE_MASK (s_type s) = 11 \<or> TYPE_MASK (s_type s) = 12
      \<or> TYPE_MASK (s_type s) = 13 \<or> TYPE_MASK (s_type s) = 14 \<or> TYPE_MASK (s_type s) = 18
      \<or> TYPE_MASK (s_type s) = 19 \<or> TYPE_MASK (s_type s) = 20 \<or> TYPE_MASK (s_type s) = 21
      \<or> TYPE_MASK (s_type s) = 22"
    and ih: "\<And>r s1. new_expr M (s_type s) None s = (r, s1) \<Longrightarrow> r \<noteq> NULL
       \<Longrightarrow> s_type (tx_next_token M s1) = TOK_OPEN
       \<Longrightarrow> weight (snd (snd (base_args M (nat (ARITY (s_type s))) 0 (call_node s1 r)
              (tx_next_token M s1)))) \<le> weight (tx_next_token M s1)"
  shows "weight (snd (base M s)) \<le> weight s"
proof -
  obtain r s1 where ne: "new_expr M (s_type s) None s = (r, s1)"
    by (cases "new_expr M (s_type s) None s")
  have w1: "weight s1 = weight s"
    using ne by (rule weight_new_expr_eq)
  let ?s2 = "tx_next_token M s1"
  let ?arity = "nat (ARITY (s_type s))"
  obtain r' i s3 where ba: "base_args M ?arity 0 (call_node s1 r) ?s2 = (r', i, s3)"
    by (cases "base_args M ?arity 0 (call_node s1 r) ?s2")
  have eq: "base M s =
      (if r = NULL then (NULL, s1)
       else if s_type ?s2 \<noteq> TOK_OPEN then (call_node s1 r, ?s2\<lparr>s_type := TOK_ERROR\<rparr>)
       else if r' = NULL then (NULL, s3)
       else if s_type s3 \<noteq> TOK_CLOSE \<or> int i \<noteq> int ?arity - 1
       then (r', s3\<lparr>s_type := TOK_ERROR\<rparr>)
       else (r', tx_next_token M s3))"
    using m ne ba
    apply (elim disjE)
             apply (simp_all add: base.psimps[OF dom] Let_def)
    done
  have w2: "weight ?s2 \<le> weight s"
    using weight_next_token[of M s1] w1 by simp
  show ?thesis
  proof (cases "r \<noteq> NULL \<and> s_type ?s2 = TOK_OPEN")
    case True
    then have "weight (snd (snd (base_args M ?arity 0 (call_node s1 r) ?s2))) \<le> weight ?s2"
      using ne ih by blast
    then have w3: "weight s3 \<le> weight s"
      using ba w2 by simp
    show ?thesis
      using eq True w3 weight_error[of s3] weight_next_token[of M s3] by simp
  next
    case False
    then show ?thesis
      using eq w1 w2 weight_error[of ?s2] by auto
  qed
qed

lemma parser_weight:
  "parser_dom (Inl (Inl (Inl (M, s)))) \<Longrightarrow> weight (snd (base M s)) \<le> weight s"
  "parser_dom (Inl (Inl (Inr (M, arity, i, ret, s))))
     \<Longrightarrow> weight (snd (snd (base_args M arity i ret s))) \<le> weight s"
  "parser_dom (Inl (Inr (Inl (M, s)))) \<Longrightarrow> weight (snd (power_tx M s)) \<le> weight s"
  "parser_dom (Inl (Inr (Inr (Inl (M, s))))) \<Longrightarrow> weight (snd (factor M s)) \<le> weight s"
  "parser_dom (Inl (Inr (Inr (Inr (M, ret, s))))) \<Longrightarrow> weight (snd (factor_loop M ret s)) \<le> weight s"
  "parser_dom (Inr (Inl (Inl (M, s)))) \<Longrightarrow> weight (snd (term_tx M s)) \<le> weight s"
  "parser_dom (Inr (Inl (Inr (Inl (M, ret, s))))) \<Longrightarrow> weight (snd (term_loop M ret s)) \<le> weight s"
  "parser_dom (Inr (Inl (Inr (Inr (M, s))))) \<Longrightarrow> weight (snd (expr M s)) \<le> weight s"
  "parser_dom (Inr (Inr (Inl (M, ret, s)))) \<Longrightarrow> weight (snd (expr_loop M ret s)) \<le> weight s"
  "parser_dom (Inr (Inr (Inr (Inl (M, s))))) \<Longrightarrow> weight (snd (list_tx M s)) \<le> weight s"
  "parser_dom (Inr (Inr (Inr (Inr (M, ret, s))))) \<Longrightarrow> weight (snd (list_loop M ret s)) \<le> weight s"
proof (induct rule: base_base_args_power_tx_factor_factor_loop_term_tx_term_loop_expr_expr_loop_list_tx_list_loop.pinduct)
  case (1 M s)
  note dom = "1.hyps"(1) and IH_power = "1.hyps"(2) and IH_args = "1.hyps"(3)
    and IH_list = "1.hyps"(4)
  let ?m = "TYPE_MASK (s_type s)"
  show ?case
  proof (cases "?m = 29 \<or> ?m = 30 \<or> ?m = 31 \<or> ?m = 8 \<or> ?m = 16")
    case True
    with dom show ?thesis
      by (rule base_weight_leaf_case)
  next
    case nleaf: False
    then have pre: "?m \<noteq> 29" "?m \<noteq> 30" "?m \<noteq> 31" "\<not> (?m = 8 \<or> ?m = 16)"
      by simp_all
    show ?thesis
    proof (cases "?m = 9 \<or> ?m = 17")
      case call1: True
      show ?thesis
      proof (rule base_weight_call1_case[OF dom call1])
        fix r s1
        assume ne: "new_expr M (s_type s) None s = (r, s1)" and nn: "r \<noteq> NULL"
        show "weight (snd (power_tx M (tx_next_token M s1))) \<le> weight (tx_next_token M s1)"
          by (rule IH_power[OF refl pre call1 refl ne[symmetric] nn refl])
      qed
    next
      case ncall1: False
      show ?thesis
      proof (cases "?m = 10 \<or> ?m = 11 \<or> ?m = 12 \<or> ?m = 13 \<or> ?m = 14 \<or> ?m = 18
          \<or> ?m = 19 \<or> ?m = 20 \<or> ?m = 21 \<or> ?m = 22")
        case calln: True
        show ?thesis
        proof (rule base_weight_calln_case[OF dom calln])
          fix r s1
          assume ne: "new_expr M (s_type s) None s = (r, s1)" and nn: "r \<noteq> NULL"
            and op: "s_type (tx_next_token M s1) = TOK_OPEN"
          from op have op': "\<not> s_type (tx_next_token M s1) \<noteq> TOK_OPEN"
            by simp
          show "weight (snd (snd (base_args M (nat (ARITY (s_type s))) 0 (call_node s1 r)
              (tx_next_token M s1)))) \<le> weight (tx_next_token M s1)"
            by (rule IH_args[OF refl pre ncall1 calln refl refl ne[symmetric] nn refl refl op'])
        qed
      next
        case ncalln: False
        show ?thesis
        proof (cases "?m = 27")
          case True
          show ?thesis
            by (rule base_weight_open_case[OF dom True])
               (rule IH_list[OF refl pre ncall1 ncalln True])
        next
          case False
          show ?thesis
            by (rule base_weight_default_case[OF dom])
               (use nleaf ncall1 ncalln False in simp)
        qed
      qed
    qed
  qed
next
  case (2 M arity i ret s)
  note dom = "2.hyps"(1) and IH1 = "2.hyps"(2) and IH2 = "2.hyps"(3)
  show ?case
  proof (cases "i < arity")
    case True
    obtain p s1 where e: "expr M (tx_next_token M s) = (p, s1)"
      by (cases "expr M (tx_next_token M s)")
    have w1: "weight s1 \<le> weight s"
      using IH1[OF True] e weight_next_token[of M s] by simp
    show ?thesis
    proof (cases "p \<noteq> NULL \<and> s_type s1 = TOK_SEP")
      case True2: True
      have "weight (snd (snd (base_args M arity (Suc i) (set_parameter i p ret) s1))) \<le> weight s1"
        by (rule IH2[OF True refl]) (use e True2 in auto)
      then show ?thesis
        using True True2 e w1 by (simp add: base_args.psimps[OF dom])
    next
      case False
      then show ?thesis
        using True e w1 by (auto simp: base_args.psimps[OF dom])
    qed
  next
    case False
    then show ?thesis
      by (simp add: base_args.psimps[OF dom])
  qed
next
  case (3 M s)
  note dom = "3.hyps"(1) and IH1 = "3.hyps"(2) and IH2 = "3.hyps"(3)
  obtain sign s1 where ps: "power_signs M 1 s = (sign, s1)"
    by (cases "power_signs M 1 s")
  have w1: "weight s1 \<le> weight s"
    using weight_power_signs[of M 1 s] ps by simp
  obtain b s2 where b: "base M s1 = (b, s2)"
    by (cases "base M s1")
  have "weight (snd (base M s1)) \<le> weight s1"
  proof (cases "sign = 1")
    case True
    show ?thesis
      by (rule IH1[OF refl _ True]) (simp add: ps)
  next
    case False
    show ?thesis
      by (rule IH2[OF refl _ False]) (simp add: ps)
  qed
  then have w2: "weight s2 \<le> weight s"
    using b w1 by simp
  obtain n s3 where n: "new_expr M (TX_FUNCTION1 OR TX_FLAG_PURE) (Some [b]) s2 = (n, s3)"
    by (cases "new_expr M (TX_FUNCTION1 OR TX_FLAG_PURE) (Some [b]) s2")
  have "weight s3 = weight s2"
    using n by (rule weight_new_expr_eq)
  then show ?case
    using ps b n w2 by (simp add: power_tx.psimps[OF dom])
next
  case (4 M s)
  note dom = "4.hyps"(1) and IH1 = "4.hyps"(2) and IH2 = "4.hyps"(3)
  show ?case
    unfolding factor.psimps[OF dom]
    by (rule head_weight_step) (use IH1 IH2 in auto)
next
  case (5 M ret s)
  note dom = "5.hyps"(1) and IH1 = "5.hyps"(2) and IH2 = "5.hyps"(3)
  show ?case
  proof (cases "s_type s = TOK_INFIX \<and> s_function s = Code libm_cpow")
    case True
    have "weight (snd (power_tx M (tx_next_token M s))) \<le> weight s"
      using IH1[OF True refl] weight_next_token[of M s] by simp
    then have "weight (snd (let (p, s1) = power_tx M (tx_next_token M s)
                      in if p = NULL then (NULL, s1)
                         else (let (ret', s2) = binary_node M (s_function s) ret p s1
                               in if ret' = NULL then (NULL, s2) else factor_loop M ret' s2))) \<le> weight s"
      by (rule loop_weight_step) (use IH2[OF True refl refl] in auto)
    then show ?thesis
      by (subst factor_loop.psimps[OF dom]) (simp only: if_P[OF True] Let_def)
  next
    case False
    then show ?thesis
      by (auto simp: factor_loop.psimps[OF dom])
  qed
next
  case (6 M s)
  note dom = "6.hyps"(1) and IH1 = "6.hyps"(2) and IH2 = "6.hyps"(3)
  show ?case
    unfolding term_tx.psimps[OF dom]
    by (rule head_weight_step) (use IH1 IH2 in auto)
next
  case (7 M ret s)
  note dom = "7.hyps"(1) and IH1 = "7.hyps"(2) and IH2 = "7.hyps"(3)
  show ?case
  proof (cases "s_type s = TOK_INFIX \<and> (s_function s = Code fn_mul \<or> s_function s = Code fn_divide)")
    case True
    have "weight (snd (factor M (tx_next_token M s))) \<le> weight s"
      using IH1[OF True refl] weight_next_token[of M s] by simp
    then have "weight (snd (let (p, s1) = factor M (tx_next_token M s)
                      in if p = NULL then (NULL, s1)
                         else (let (ret', s2) = binary_node M (s_function s) ret p s1
                               in if ret' = NULL then (NULL, s2) else term_loop M ret' s2))) \<le> weight s"
      by (rule loop_weight_step) (use IH2[OF True refl refl] in auto)
    then show ?thesis
      by (subst term_loop.psimps[OF dom]) (simp only: if_P[OF True] Let_def)
  next
    case False
    then show ?thesis
      by (auto simp: term_loop.psimps[OF dom])
  qed
next
  case (8 M s)
  note dom = "8.hyps"(1) and IH1 = "8.hyps"(2) and IH2 = "8.hyps"(3)
  show ?case
    unfolding expr.psimps[OF dom]
    by (rule head_weight_step) (use IH1 IH2 in auto)
next
  case (9 M ret s)
  note dom = "9.hyps"(1) and IH1 = "9.hyps"(2) and IH2 = "9.hyps"(3)
  show ?case
  proof (cases "s_type s = TOK_INFIX \<and> (s_function s = Code fn_add \<or> s_function s = Code fn_sub)")
    case True
    have "weight (snd (term_tx M (tx_next_token M s))) \<le> weight s"
      using IH1[OF True refl] weight_next_token[of M s] by simp
    then have "weight (snd (let (p, s1) = term_tx M (tx_next_token M s)
                      in if p = NULL then (NULL, s1)
                         else (let (ret', s2) = binary_node M (s_function s) ret p s1
                               in if ret' = NULL then (NULL, s2) else expr_loop M ret' s2))) \<le> weight s"
      by (rule loop_weight_step) (use IH2[OF True refl refl] in auto)
    then show ?thesis
      by (subst expr_loop.psimps[OF dom]) (simp only: if_P[OF True] Let_def)
  next
    case False
    then show ?thesis
      by (auto simp: expr_loop.psimps[OF dom])
  qed
next
  case (10 M s)
  note dom = "10.hyps"(1) and IH1 = "10.hyps"(2) and IH2 = "10.hyps"(3)
  show ?case
    unfolding list_tx.psimps[OF dom]
    by (rule head_weight_step) (use IH1 IH2 in auto)
next
  case (11 M ret s)
  note dom = "11.hyps"(1) and IH1 = "11.hyps"(2) and IH2 = "11.hyps"(3)
  show ?case
  proof (cases "s_type s = TOK_SEP")
    case True
    have "weight (snd (expr M (tx_next_token M s))) \<le> weight s"
      using IH1[OF True] weight_next_token[of M s] by simp
    then have "weight (snd (let (p, s1) = expr M (tx_next_token M s)
                      in if p = NULL then (NULL, s1)
                         else (let (ret', s2) = binary_node M (Code fn_comma) ret p s1
                               in if ret' = NULL then (NULL, s2) else list_loop M ret' s2))) \<le> weight s"
      by (rule loop_weight_step) (use IH2[OF True refl] in auto)
    then show ?thesis
      by (subst list_loop.psimps[OF dom]) (simp only: if_P[OF True] Let_def)
  next
    case False
    then show ?thesis
      by (auto simp: list_loop.psimps[OF dom])
  qed
qed


lemma pair_eqD: "(a, b) = X \<Longrightarrow> a = fst X \<and> b = snd X"
  by auto

lemma triple_eqD: "(a, b, c) = X \<Longrightarrow> a = fst X \<and> b = fst (snd X) \<and> c = snd (snd X)"
  by auto

lemma s_type_new_expr [simp]: "s_type (snd (new_expr M t ps s)) = s_type s"
  by (simp add: new_expr_def Let_def)

lemma weight_snd_new_expr [simp]: "weight (snd (new_expr M t ps s)) = weight s"
  by (rule weight_new_expr)

lemma weight_snd_binary_node [simp]: "weight (snd (binary_node M t l r s)) = weight s"
  by (cases "binary_node M t l r s") (simp add: weight_binary_node_eq)

lemma parser_rank_loops [simp]:
  "parser_rank (Inl (Inr (Inr (Inr (M, p))))) = (weight (snd p), 2, 0)"
  "parser_rank (Inr (Inl (Inr (Inl (M, p))))) = (weight (snd p), 4, 0)"
  "parser_rank (Inr (Inr (Inl (M, p)))) = (weight (snd p), 6, 0)"
  "parser_rank (Inr (Inr (Inr (Inr (M, p))))) = (weight (snd p), 8, 0)"
  by (cases p; simp)+

lemma active_types [simp]:
  "active 32" "active 26"
  "TYPE_MASK t = 27 \<Longrightarrow> active t"
  "TYPE_MASK t = 9 \<Longrightarrow> active t" "TYPE_MASK t = 17 \<Longrightarrow> active t"
  "TYPE_MASK t = 10 \<Longrightarrow> active t" "TYPE_MASK t = 11 \<Longrightarrow> active t"
  "TYPE_MASK t = 12 \<Longrightarrow> active t" "TYPE_MASK t = 13 \<Longrightarrow> active t"
  "TYPE_MASK t = 14 \<Longrightarrow> active t" "TYPE_MASK t = 18 \<Longrightarrow> active t"
  "TYPE_MASK t = 19 \<Longrightarrow> active t" "TYPE_MASK t = 20 \<Longrightarrow> active t"
  "TYPE_MASK t = 21 \<Longrightarrow> active t" "TYPE_MASK t = 22 \<Longrightarrow> active t"
  by (simp_all add: active_def is_function_type_def is_closure_type_def)

lemma weight_after_token:
  assumes "active (s_type s)" and "weight (snd X) \<le> weight (tx_next_token M s)"
  shows "weight (snd X) < weight s"
  using assms weight_next_token_active[of s M] by simp

lemma weight_after_new_expr_token:
  assumes "active (s_type s)"
  shows "weight (tx_next_token M (snd (new_expr M t ps s))) < weight s"
  using weight_next_token_active[of "snd (new_expr M t ps s)" M] assms by simp

lemma weight_expr_after_token:
  assumes "parser_dom (Inr (Inl (Inr (Inr (M, tx_next_token M s)))))"
    and "\<not> weight (snd (expr M (tx_next_token M s))) < weight s"
  shows "weight (snd (expr M (tx_next_token M s))) = weight s"
  using parser_weight(8)[OF assms(1)] weight_next_token[of M s] assms(2) by simp

termination base
  apply (relation "inv_image (less_than <*lex*> less_than <*lex*> less_than) parser_rank")
  apply (rule wf_inv_image)
  apply blast
  apply (auto dest!: pair_eqD triple_eqD
      simp: weight_after_new_expr_token weight_next_token_active
        weight_after_token[OF _ parser_weight(3)] weight_after_token[OF _ parser_weight(4)]
        weight_after_token[OF _ parser_weight(6)] weight_after_token[OF _ parser_weight(8)]
        weight_after_token[OF _ parser_weight(10)]
        le_imp_less_or_eq[OF parser_weight(3)] le_imp_less_or_eq[OF parser_weight(4)]
        le_imp_less_or_eq[OF parser_weight(6)] le_imp_less_or_eq[OF parser_weight(8)]
        le_imp_less_or_eq[OF weight_power_signs]
        le_neq_implies_less[OF weight_next_token] le_neq_implies_less[OF weight_power_signs]
        weight_expr_after_token)
  done


declare base.simps [simp del] base_args.simps [simp del] power_tx.simps [simp del]
  factor.simps [simp del] factor_loop.simps [simp del] term_tx.simps [simp del]
  term_loop.simps [simp del] expr.simps [simp del] expr_loop.simps [simp del]
  list_tx.simps [simp del] list_loop.simps [simp del]

section \<open>The evaluator\<close>

text \<open>
  Calling a function pointer with the arguments \<open>args\<close> (and, for a closure, the context
  \<open>c\<close>). The functions of the file and of \<^verbatim>\<open>complex.h\<close> are known at their own
  arity; every other call is the machine's \<open>extern\<close>.
\<close>

definition nullary :: "d_cx \<Rightarrow> d_cx list \<Rightarrow> d_cx option" where
  "nullary v args = (case args of [] \<Rightarrow> Some v | _ \<Rightarrow> None)"

definition unary :: "(d_cx \<Rightarrow> d_cx) \<Rightarrow> d_cx list \<Rightarrow> d_cx option" where
  "unary g args = (case args of [a] \<Rightarrow> Some (g a) | _ \<Rightarrow> None)"

definition binary :: "(d_cx \<Rightarrow> d_cx \<Rightarrow> d_cx) \<Rightarrow> d_cx list \<Rightarrow> d_cx option" where
  "binary g args = (case args of [a, b] \<Rightarrow> Some (g a b) | _ \<Rightarrow> None)"

text \<open>
  The constants \<^verbatim>\<open>3.14159265358979323846\<close> and \<^verbatim>\<open>2.71828182845904523536\<close> of the
  functions \<^verbatim>\<open>pi\<close> and \<^verbatim>\<open>e\<close> are doubles: the binary64 values nearest to the decimals.
\<close>

definition pi_literal :: double where
  "pi_literal = Finite (884279719003555 / 2 ^ 48)"

definition e_literal :: double where
  "e_literal = Finite (6121026514868073 / 2 ^ 51)"

definition known_call :: "machine \<Rightarrow> fnptr \<Rightarrow> d_cx list \<Rightarrow> d_cx option" where
  "known_call M f args =
     (case f of
        fn_i \<Rightarrow> nullary (Cx (Finite 0) (Finite 1)) args
      | fn_pi \<Rightarrow> nullary (cx_of_double pi_literal) args
      | fn_e \<Rightarrow> nullary (cx_of_double e_literal) args
      | fn_infinity \<Rightarrow> nullary INFINITY args
      | fn_cabs \<Rightarrow> unary (\<lambda>a. cx_of_double (cabs M a)) args
      | fn_carg \<Rightarrow> unary (\<lambda>a. cx_of_double (carg M a)) args
      | fn_cimag \<Rightarrow> unary (\<lambda>a. cx_of_double (cimag a)) args
      | fn_creal \<Rightarrow> unary (\<lambda>a. cx_of_double (creal a)) args
      | fn_add \<Rightarrow> binary (cx_add M) args
      | fn_sub \<Rightarrow> binary (cx_sub M) args
      | fn_mul \<Rightarrow> binary (cx_mul M) args
      | fn_divide \<Rightarrow> binary (cx_div M) args
      | fn_negate \<Rightarrow> unary (cx_neg M) args
      | fn_comma \<Rightarrow> binary (\<lambda>a b. b) args
      | libm_cpow \<Rightarrow> binary (cpow M) args
      | Native a \<Rightarrow> None
      | _ \<Rightarrow> unary (libm1 M f) args)"

definition call :: "machine \<Rightarrow> memory \<Rightarrow> pointer \<Rightarrow> pointer option \<Rightarrow> d_cx list \<Rightarrow> d_cx" where
  "call M mem p c args =
     (case p of
        Code f \<Rightarrow>
          (case c of
             None \<Rightarrow>
               (case known_call M f args of
                  Some v \<Rightarrow> v
                | None \<Rightarrow> extern M p c args mem)
           | Some x \<Rightarrow> extern M p c args mem)
      | _ \<Rightarrow> extern M p c args mem)"

text \<open>
  \<^verbatim>\<open>tx_eval\<close>: a null pointer yields \<^verbatim>\<open>NAN\<close>; a constant its value; a variable the
  value its pointer holds in the caller's memory now; a function or closure the result
  of its call on the values of its first \<^verbatim>\<open>ARITY\<close> children.
\<close>

fun tx_eval :: "machine \<Rightarrow> memory \<Rightarrow> tx_expr \<Rightarrow> d_cx" where
  "tx_eval M mem NULL = NAN"
| "tx_eval M mem (Expr t u ps c) =
     (let m = TYPE_MASK t
      in if m = TX_CONSTANT then value_of M u
         else if m = TX_VARIABLE then mem (pointer_of M u)
         else if is_function_type m then
           (if 0 \<le> ARITY t \<and> ARITY t \<le> 6
            then call M mem (pointer_of M u) None
                   (take (nat (ARITY t)) (map (tx_eval M mem) ps))
            else NAN)
         else if is_closure_type m then
           (if 0 \<le> ARITY t \<and> ARITY t \<le> 6
            then call M mem (pointer_of M u) (Some c)
                   (take (nat (ARITY t)) (map (tx_eval M mem) ps))
            else NAN)
         else NAN)"

section \<open>The optimizer\<close>

fun is_constant :: "tx_expr \<Rightarrow> bool" where
  "is_constant NULL = False"
| "is_constant (Expr t u ps c) = (t = TX_CONSTANT)"

text \<open>
  \<^verbatim>\<open>optimize\<close> rewrites the node in place; here it returns the new node. A folded node
  has released its children. (On a null pointer the C code has no defined behaviour;
  \<^verbatim>\<open>tx_compile\<close> never passes one.)
\<close>

fun optimize :: "machine \<Rightarrow> memory \<Rightarrow> tx_expr \<Rightarrow> tx_expr" where
  "optimize M mem NULL = NULL"
| "optimize M mem (Expr t u ps c) =
     (if t = TX_CONSTANT then Expr t u ps c
      else if t = TX_VARIABLE then Expr t u ps c
      else if IS_PURE t then
        (let arity = nat (ARITY t);
             ps' = take arity (map (optimize M mem) ps) @ drop arity ps;
             known = list_all is_constant (take arity ps')
         in if known
            then Expr TX_CONSTANT (Value (tx_eval M mem (Expr t u ps' c))) [] c
            else Expr t u ps' c)
      else Expr t u ps c)"

section \<open>Compiling and interpreting\<close>

text \<open>
  \<^verbatim>\<open>tx_compile\<close> returns the handle and the value it stores through \<^verbatim>\<open>error\<close> (when the
  caller passes a pointer). The fields of the state that C leaves uninitialised are
  written by \<^verbatim>\<open>tx_next_token\<close> before the parser reads them. \<^verbatim>\<open>find_lookup\<close> counts
  \<^verbatim>\<open>lookup_len\<close> down to zero: a negative count never stops it before the end of the
  array, and neither does a count beyond the length of the array. (Past the last binding
  the C code reads outside the array, which the C standard leaves undefined; the model
  finds no binding there.)
\<close>

definition initial_state :: "string \<Rightarrow> tx_variable list \<Rightarrow> int \<Rightarrow> state" where
  "initial_state expression variables var_count =
     \<lparr>s_start = expression, s_next = expression, s_type = TOK_NULL, s_value = Finite 0,
      s_bound = NULL_ptr, s_function = NULL_ptr, s_context = NULL_ptr,
      s_lookup = (if var_count < 0 then variables else take (nat var_count) variables),
      s_mallocs = 0\<rparr>"

definition tx_compile ::
  "machine \<Rightarrow> memory \<Rightarrow> string \<Rightarrow> tx_variable list \<Rightarrow> int \<Rightarrow> tx_expr \<times> int" where
  "tx_compile M mem expression variables var_count =
     (let s = tx_next_token M (initial_state expression variables var_count);
          (root, s) = list_tx M s
      in if root = NULL then (NULL, - 1)
         else if s_type s \<noteq> TOK_END then
           (let error = int (length (s_start s)) - int (length (s_next s))
            in (NULL, if error = 0 then 1 else error))
         else (optimize M mem root, 0))"

definition tx_interp :: "machine \<Rightarrow> memory \<Rightarrow> string \<Rightarrow> d_cx \<times> int" where
  "tx_interp M mem expression =
     (let (n, error) = tx_compile M mem expression [] 0
      in (if n \<noteq> NULL then tx_eval M mem n else NAN, error))"

section \<open>Machines for the examples\<close>

text \<open>The real number \<open>x\<close> as a \<^verbatim>\<open>d_cx\<close>: \<open>x + 0i\<close>.\<close>

definition cx :: "real \<Rightarrow> d_cx" where
  "cx x = Cx (Finite x) (Finite 0)"

text \<open>
  Witnesses run on \<open>ideal\<close>: \<^verbatim>\<open>strtod\<close> reads an unsigned decimal integer, every
  allocation succeeds, the arithmetic is exact on finite values (\<open>cpow\<close> on a real base
  and a natural exponent) and negation changes the sign of both parts, of a zero too.
  \<open>memory0\<close> holds \<^verbatim>\<open>NAN\<close> everywhere.
\<close>

definition ideal_strtod :: "string \<Rightarrow> double \<times> nat" where
  "ideal_strtod cs =
     (let ds = takeWhile isdigit cs
      in (Finite (real (foldl (\<lambda>n d. 10 * n + (of_char d - 48)) 0 ds)), length ds))"

fun real_of :: "double \<Rightarrow> real option" where
  "real_of (Finite a) = Some a"
| "real_of NegZero = Some 0"
| "real_of NaN = None"
| "real_of PosInf = None"
| "real_of NegInf = None"

fun d_neg :: "double \<Rightarrow> double" where
  "d_neg (Finite a) = (if a = 0 then NegZero else Finite (- a))"
| "d_neg NegZero = Finite 0"
| "d_neg NaN = NaN"
| "d_neg PosInf = NegInf"
| "d_neg NegInf = PosInf"

definition exact :: "(real \<Rightarrow> real \<Rightarrow> real \<Rightarrow> real \<Rightarrow> d_cx) \<Rightarrow> d_cx \<Rightarrow> d_cx \<Rightarrow> d_cx" where
  "exact f x y =
     (case real_of (creal x) of
        Some a \<Rightarrow>
          (case real_of (cimag x) of
             Some b \<Rightarrow>
               (case real_of (creal y) of
                  Some c \<Rightarrow> (case real_of (cimag y) of Some d \<Rightarrow> f a b c d | None \<Rightarrow> NAN)
                | None \<Rightarrow> NAN)
           | None \<Rightarrow> NAN)
      | None \<Rightarrow> NAN)"

definition ideal_cpow :: "d_cx \<Rightarrow> d_cx \<Rightarrow> d_cx" where
  "ideal_cpow =
     exact (\<lambda>a b c d.
       if b = 0 \<and> d = 0 \<and> 0 \<le> c \<and> c = real_of_int \<lfloor>c\<rfloor>
       then Cx (Finite (a ^ nat \<lfloor>c\<rfloor>)) (Finite 0)
       else NAN)"

definition ideal :: machine where
  "ideal =
     \<lparr>strtod = ideal_strtod,
      malloc_ok = (\<lambda>k. True),
      cx_add = exact (\<lambda>a b c d. Cx (Finite (a + c)) (Finite (b + d))),
      cx_sub = exact (\<lambda>a b c d. Cx (Finite (a - c)) (Finite (b - d))),
      cx_mul = exact (\<lambda>a b c d. Cx (Finite (a * c - b * d)) (Finite (a * d + b * c))),
      cx_div = exact (\<lambda>a b c d.
        if c = 0 \<and> d = 0 then NAN
        else Cx (Finite ((a * c + b * d) / (c * c + d * d)))
                (Finite ((b * c - a * d) / (c * c + d * d)))),
      cx_neg = (\<lambda>x. Cx (d_neg (creal x)) (d_neg (cimag x))),
      mul_I = (\<lambda>x. case x of Finite a \<Rightarrow> Cx (Finite 0) (Finite a)
                     | NegZero \<Rightarrow> Cx NegZero (Finite 0)
                     | _ \<Rightarrow> Cx NaN x),
      cabs = (\<lambda>x. NaN),
      carg = (\<lambda>x. NaN),
      cpow = ideal_cpow,
      libm1 = (\<lambda>f x. NAN),
      extern = (\<lambda>p c args mem. NAN),
      pun_value = (\<lambda>p. NAN),
      pun_pointer = (\<lambda>v. NULL_ptr)\<rparr>"

definition memory0 :: memory where
  "memory0 = (\<lambda>p. NAN)"

text \<open>
  Counterexamples on rounded values run on \<open>binary64\<close>: the machine \<open>ideal\<close> with the
  results of \<^verbatim>\<open>cpow\<close> in IEEE binary64 arithmetic at the arguments of the examples, as
  the GNU C library computes them (\<^verbatim>\<open>cexp(y * clog(x))\<close>):
  \<^verbatim>\<open>cpow(2, 3) = 0x1.ffffffffffffep+2\<close> (\<open>7.999999999999998\<close>),
  \<^verbatim>\<open>cpow(0x1.ffffffffffffep+2, 2) = 0x1.ffffffffffffdp+5\<close> (\<open>63.99999999999998\<close>) and
  \<^verbatim>\<open>cpow(-2-0i, 2) = 4 + 0x1.1a62633145c07p-50i\<close> (\<open>4 + 9.797174393178826e-16i\<close>).
\<close>

definition rounded_cpow :: "d_cx \<Rightarrow> d_cx \<Rightarrow> d_cx" where
  "rounded_cpow x y =
     (if x = cx 2 \<and> y = cx 3 then cx (4503599627370495 / 2 ^ 49)
      else if x = cx (4503599627370495 / 2 ^ 49) \<and> y = cx 2
      then cx (9007199254740989 / 2 ^ 47)
      else if x = Cx (Finite (- 2)) NegZero \<and> y = cx 2
      then Cx (Finite 4) (Finite (4967757600021511 / 2 ^ 102))
      else ideal_cpow x y)"

definition binary64 :: machine where
  "binary64 = ideal\<lparr>cpow := rounded_cpow\<rparr>"

section \<open>Evaluating a run\<close>

lemmas parser_simps = base.simps base_args.simps power_tx.simps factor.simps factor_loop.simps
  term_tx.simps term_loop.simps expr.simps expr_loop.simps list_tx.simps list_loop.simps
  power_signs.simps token_loop.simps find_builtin_loop.simps

lemmas run_defs = tx_interp_def tx_compile_def initial_state_def tx_next_token_def token_step_def
  read_number_def read_identifier_def read_operator_def token_of_symbol_def
  find_lookup_def find_builtin_def functions_table_def builtin_def char_at_def
  isdigit_def isalpha_def ident_char_def TYPE_MASK_def IS_PURE_def IS_CLOSURE_def ARITY_def
  is_function_type_def is_closure_type_def is_sign_def
  new_expr_def call_node_def binary_node_def base_leaf_def base_call0_def base_default_def
  call_def known_call_def nullary_def unary_def binary_def value_of_def pointer_of_def
  cx_of_double_def cx_def Let_def

lemmas ideal_defs = ideal_def ideal_strtod_def ideal_cpow_def exact_def memory0_def NAN_def

section \<open>The optimizer keeps the value of a tree\<close>

lemma tx_eval_take_optimize:
  assumes "\<And>p. p \<in> set ps \<Longrightarrow> tx_eval M mem (optimize M mem p) = tx_eval M mem p"
  shows "take n (map (tx_eval M mem) (take n (map (optimize M mem) ps) @ drop n ps))
       = take n (map (tx_eval M mem) ps)"
proof -
  have eq: "map (tx_eval M mem) (map (optimize M mem) ps) = map (tx_eval M mem) ps"
    using assms by simp
  have "take n (map (tx_eval M mem) (take n (map (optimize M mem) ps) @ drop n ps))
      = take n (map (tx_eval M mem) (map (optimize M mem) ps))"
  proof (cases "n \<le> length ps")
    case True
    then show ?thesis
      by (simp add: take_map)
  next
    case False
    then show ?thesis
      by simp
  qed
  then show ?thesis
    by (simp only: eq)
qed

lemma tx_eval_children:
  assumes "take (nat (ARITY t)) (map (tx_eval M mem) ps')
         = take (nat (ARITY t)) (map (tx_eval M mem) ps)"
  shows "tx_eval M mem (Expr t u ps' c) = tx_eval M mem (Expr t u ps c)"
  using assms by (simp add: Let_def)

lemma tx_eval_folded: "tx_eval M mem (Expr TX_CONSTANT (Value v) ps c) = v"
  by (simp add: TYPE_MASK_def value_of_def)

text \<open>
  Claim C10. For every tree, every machine and every memory, the optimized tree evaluates
  (in the memory it was optimized in) to the value of the tree before optimization: a fold
  stores the value one evaluation of the node gave, and the children of a node that is
  not folded keep their values. The claim's well-formed trees are among them.
\<close>

theorem optimize_preserves_tx_eval:
  "tx_eval M mem (optimize M mem n) = tx_eval M mem n"
proof (induction M mem n rule: optimize.induct)
  case (1 M mem)
  show ?case by simp
next
  case (2 M mem t u ps c)
  let ?arity = "nat (ARITY t)"
  let ?ps' = "take ?arity (map (optimize M mem) ps) @ drop ?arity ps"
  show ?case
  proof (cases "t \<noteq> TX_CONSTANT \<and> t \<noteq> TX_VARIABLE \<and> IS_PURE t")
    case True
    then have ih: "\<And>p. p \<in> set ps \<Longrightarrow> tx_eval M mem (optimize M mem p) = tx_eval M mem p"
      using "2.IH" by simp
    have same: "tx_eval M mem (Expr t u ?ps' c) = tx_eval M mem (Expr t u ps c)"
      by (rule tx_eval_children) (rule tx_eval_take_optimize[OF ih])
    show ?thesis
    proof (cases "list_all is_constant (take ?arity ?ps')")
      case known: True
      then have "optimize M mem (Expr t u ps c)
          = Expr TX_CONSTANT (Value (tx_eval M mem (Expr t u ?ps' c))) [] c"
        using True by (simp add: Let_def)
      then show ?thesis
        using same by (simp only: tx_eval_folded)
    next
      case False
      then have "optimize M mem (Expr t u ps c) = Expr t u ?ps' c"
        using True by (simp add: Let_def)
      then show ?thesis
        using same by simp
    qed
  next
    case False
    then have "optimize M mem (Expr t u ps c) = Expr t u ps c"
      by auto
    then show ?thesis by simp
  qed
qed

section \<open>Evaluating a null handle\<close>

text \<open>
  Claim C2, as amended. \<^verbatim>\<open>tx_eval\<close> returns \<^verbatim>\<open>NAN\<close> for a null handle, a real value
  converted to \<^verbatim>\<open>double _Complex\<close>: the real component is not-a-number and the imaginary
  component is zero.
\<close>

theorem tx_eval_null: "tx_eval M mem NULL = Cx NaN (Finite 0)"
  by (simp add: NAN_def cx_of_double_def)

text \<open>Claim C2 as stated fails: the imaginary component is not a not-a-number.\<close>

theorem tx_eval_null_imaginary_counterexample:
  "cimag (tx_eval ideal memory0 NULL) \<noteq> NaN"
  by (simp add: NAN_def cx_of_double_def)


section \<open>What the examples ask of a machine\<close>

text \<open>
  \<open>single_digits M\<close>: \<^verbatim>\<open>strtod\<close> reads a decimal digit that is followed by an operator, a
  parenthesis, a comma, a space or the end of the string as the value of that digit, and
  consumes one character. \<open>allocates M\<close>: no call of \<^verbatim>\<open>malloc\<close> fails.
\<close>

definition operator_chars :: "char set" where
  "operator_chars = set ''+-*/^(), ''"

definition single_digits :: "machine \<Rightarrow> bool" where
  "single_digits M =
     (\<forall>d rest. isdigit d \<and> (rest = [] \<or> hd rest \<in> operator_chars)
        \<longrightarrow> strtod M (d # rest) = (Finite (real (of_char d - 48)), 1))"

definition allocates :: "machine \<Rightarrow> bool" where
  "allocates M = (\<forall>k. malloc_ok M k)"

lemma single_digitsD:
  "single_digits M \<Longrightarrow> isdigit d \<Longrightarrow> rest = [] \<or> hd rest \<in> operator_chars
   \<Longrightarrow> strtod M (d # rest) = (Finite (real (of_char d - 48)), 1)"
  by (simp add: single_digits_def)

lemma allocatesD: "allocates M \<Longrightarrow> malloc_ok M k"
  by (simp add: allocates_def)

lemma single_digits_ideal: "single_digits ideal"
proof -
  have "takeWhile isdigit rest = []" if "rest = [] \<or> hd rest \<in> operator_chars" for rest
    using that by (cases rest) (auto simp: operator_chars_def isdigit_def)
  then show ?thesis
    by (simp add: single_digits_def ideal_def ideal_strtod_def)
qed

lemma allocates_ideal: "allocates ideal"
  by (simp add: allocates_def ideal_def)

lemmas env_simps = single_digitsD allocatesD operator_chars_def

text \<open>Nodes as the parser builds them, and the tree it returns before optimization.\<close>

definition const_node :: "d_cx \<Rightarrow> tx_expr" where
  "const_node v = Expr TX_CONSTANT (Value v) [] NULL_ptr"

definition var_node :: "pointer \<Rightarrow> tx_expr" where
  "var_node p = Expr TX_VARIABLE (Ptr p) [] NULL_ptr"

definition pure1 :: "fnptr \<Rightarrow> tx_expr \<Rightarrow> tx_expr" where
  "pure1 f a = Expr (TX_FUNCTION1 OR TX_FLAG_PURE) (Ptr (Code f)) [a] NULL_ptr"

definition pure2 :: "fnptr \<Rightarrow> tx_expr \<Rightarrow> tx_expr \<Rightarrow> tx_expr" where
  "pure2 f a b = Expr (TX_FUNCTION2 OR TX_FLAG_PURE) (Ptr (Code f)) [a, b] NULL_ptr"

definition parse :: "machine \<Rightarrow> string \<Rightarrow> tx_variable list \<Rightarrow> int \<Rightarrow> tx_expr" where
  "parse M expression variables var_count =
     fst (list_tx M (tx_next_token M (initial_state expression variables var_count)))"

lemmas node_defs = const_node_def var_node_def pure1_def pure2_def parse_def

section \<open>Reading single digits and operators\<close>

text \<open>
  What \<^verbatim>\<open>tx_next_token\<close> and the productions do on the lexemes of the examples, for
  every state and every rest of the input.
\<close>

lemma token_loop_done: "s_type (token_step M s) \<noteq> TOK_NULL \<Longrightarrow> token_loop M s = token_step M s"
  by (subst token_loop.simps) (simp add: Let_def)

lemma next_token_digit:
  assumes "single_digits M" and "isdigit d" and "s_next s = d # rest"
    and "rest = [] \<or> hd rest \<in> operator_chars"
  shows "tx_next_token M s
       = s\<lparr>s_next := rest, s_type := TOK_NUMBER_R, s_value := Finite (real (of_char d - 48))\<rparr>"
proof -
  have I: "rest \<noteq> [] \<Longrightarrow> hd rest \<noteq> CHR ''I''"
    using assms(4) by (auto simp: operator_chars_def)
  have z: "d \<noteq> CHR 0x00"
    using assms(2) by (auto simp: isdigit_def)
  have st: "strtod M (d # rest) = (Finite (real (of_char d - 48)), 1)"
    using assms by (simp add: single_digitsD)
  have "token_step M (s\<lparr>s_type := TOK_NULL\<rparr>)
      = s\<lparr>s_next := rest, s_type := TOK_NUMBER_R, s_value := Finite (real (of_char d - 48))\<rparr>"
    using assms(2,3) I z st
    by (cases rest) (simp_all add: token_step_def read_number_def)
  then show ?thesis
    by (simp add: tx_next_token_def token_loop_done)
qed

lemma next_token_caret:
  assumes "s_next s = CHR ''^'' # rest"
  shows "tx_next_token M s = s\<lparr>s_next := rest, s_type := TOK_INFIX, s_function := Code libm_cpow\<rparr>"
proof -
  have "token_step M (s\<lparr>s_type := TOK_NULL\<rparr>)
       = s\<lparr>s_next := rest, s_type := TOK_INFIX, s_function := Code libm_cpow\<rparr>"
    using assms by (simp add: token_step_def read_operator_def isdigit_def isalpha_def)
  then show ?thesis
    by (simp add: tx_next_token_def token_loop_done)
qed

lemma next_token_comma:
  assumes "s_next s = CHR '','' # rest"
  shows "tx_next_token M s = s\<lparr>s_next := rest, s_type := TOK_SEP\<rparr>"
proof -
  have "token_step M (s\<lparr>s_type := TOK_NULL\<rparr>) = s\<lparr>s_next := rest, s_type := TOK_SEP\<rparr>"
    using assms by (simp add: token_step_def read_operator_def isdigit_def isalpha_def)
  then show ?thesis
    by (simp add: tx_next_token_def token_loop_done)
qed

lemma next_token_close:
  assumes "s_next s = CHR '')'' # rest"
  shows "tx_next_token M s = s\<lparr>s_next := rest, s_type := TOK_CLOSE\<rparr>"
proof -
  have "token_step M (s\<lparr>s_type := TOK_NULL\<rparr>) = s\<lparr>s_next := rest, s_type := TOK_CLOSE\<rparr>"
    using assms by (simp add: token_step_def read_operator_def isdigit_def isalpha_def)
  then show ?thesis
    by (simp add: tx_next_token_def token_loop_done)
qed

lemma next_token_end:
  assumes "s_next s = []"
  shows "tx_next_token M s = s\<lparr>s_type := TOK_END\<rparr>"
proof -
  have "token_step M (s\<lparr>s_type := TOK_NULL\<rparr>) = s\<lparr>s_type := TOK_END\<rparr>"
    using assms by (simp add: token_step_def)
  then show ?thesis
    by (simp add: tx_next_token_def token_loop_done)
qed

lemma next_token_open:
  assumes "s_next s = CHR ''('' # rest"
  shows "tx_next_token M s = s\<lparr>s_next := rest, s_type := TOK_OPEN\<rparr>"
proof -
  have "token_step M (s\<lparr>s_type := TOK_NULL\<rparr>) = s\<lparr>s_next := rest, s_type := TOK_OPEN\<rparr>"
    using assms by (simp add: token_step_def read_operator_def isdigit_def isalpha_def)
  then show ?thesis
    by (simp add: tx_next_token_def token_loop_done)
qed

lemma loops_exit:
  "s_type s \<noteq> TOK_INFIX \<Longrightarrow> factor_loop M ret s = (ret, s)"
  "s_type s \<noteq> TOK_INFIX \<Longrightarrow> term_loop M ret s = (ret, s)"
  "s_type s \<noteq> TOK_INFIX \<Longrightarrow> expr_loop M ret s = (ret, s)"
  "s_type s \<noteq> TOK_SEP \<Longrightarrow> list_loop M ret s = (ret, s)"
  by (subst factor_loop.simps term_loop.simps expr_loop.simps list_loop.simps; simp)+

lemma loops_exit_cpow:
  "s_type s = TOK_INFIX \<Longrightarrow> s_function s = Code libm_cpow \<Longrightarrow> term_loop M ret s = (ret, s)"
  "s_type s = TOK_INFIX \<Longrightarrow> s_function s = Code libm_cpow \<Longrightarrow> expr_loop M ret s = (ret, s)"
  by (subst term_loop.simps expr_loop.simps; simp)+

lemma power_tx_number:
  assumes "allocates M" and "s_type s = TOK_NUMBER_R"
  shows "power_tx M s = (const_node (cx_of_double (s_value s)),
                         tx_next_token M (s\<lparr>s_mallocs := Suc (s_mallocs s)\<rparr>))"
proof -
  have "power_signs M 1 s = (1, s)"
    using assms(2) by (subst power_signs.simps) (simp add: is_sign_def)
  moreover have "base M s = (const_node (cx_of_double (s_value s)),
                         tx_next_token M (s\<lparr>s_mallocs := Suc (s_mallocs s)\<rparr>))"
    using assms
    by (subst base.simps)
       (simp add: TYPE_MASK_def base_leaf_def new_expr_def ARITY_def allocatesD const_node_def)
  ultimately show ?thesis
    by (subst power_tx.simps) simp
qed

lemma binary_node_ok:
  assumes "allocates M"
  shows "binary_node M (Code f) l r s = (pure2 f l r, s\<lparr>s_mallocs := Suc (s_mallocs s)\<rparr>)"
  using assms by (simp add: binary_node_def new_expr_def ARITY_def allocatesD pure2_def)


section \<open>Associativity of the power operator\<close>

text \<open>
  \<open>pow_chain ds\<close> is the text \<^verbatim>\<open>^d\<close> for each digit \<open>d\<close> of \<open>ds\<close>, \<open>digit d\<close> the value
  of the digit \<open>d\<close>, and \<open>at_chain s ds\<close> says that the parser has read the operator in
  front of the digits \<open>ds\<close> that are left (or the end of the input when none is).
\<close>

definition pow_chain :: "string \<Rightarrow> string" where
  "pow_chain ds = concat (map (\<lambda>d. [CHR ''^'', d]) ds)"

definition digit :: "char \<Rightarrow> d_cx" where
  "digit d = cx (real (of_char d - 48))"

definition at_chain :: "state \<Rightarrow> string \<Rightarrow> bool" where
  "at_chain s ds =
     (case ds of
        [] \<Rightarrow> s_type s = TOK_END
      | d # ds' \<Rightarrow> s_type s = TOK_INFIX \<and> s_function s = Code libm_cpow
                   \<and> s_next s = d # pow_chain ds')"

lemma pow_chain_head: "pow_chain ds = [] \<or> hd (pow_chain ds) \<in> operator_chars"
  by (cases ds) (simp_all add: pow_chain_def operator_chars_def)

lemma at_chain_next_token:
  assumes "s_next s = pow_chain ds"
  shows "at_chain (tx_next_token M s) ds"
proof (cases ds)
  case Nil
  then show ?thesis
    using assms by (simp add: at_chain_def pow_chain_def next_token_end)
next
  case (Cons d ds')
  then have "s_next s = CHR ''^'' # d # pow_chain ds'"
    using assms by (simp add: pow_chain_def)
  then show ?thesis
    using Cons by (simp add: at_chain_def next_token_caret)
qed

lemma at_chain_mallocs [simp]: "at_chain (s\<lparr>s_mallocs := n\<rparr>) ds = at_chain s ds"
  by (simp add: at_chain_def split: list.splits)

lemma factor_loop_chain:
  assumes sd: "single_digits M" and al: "allocates M"
  shows "list_all isdigit ds \<Longrightarrow> at_chain s ds
    \<Longrightarrow> fst (factor_loop M ret s) = foldl (pure2 libm_cpow) ret (map (\<lambda>d. const_node (digit d)) ds)
        \<and> s_type (snd (factor_loop M ret s)) = TOK_END"
proof (induction ds arbitrary: s ret)
  case Nil
  then show ?case
    by (simp add: at_chain_def loops_exit)
next
  case (Cons d ds')
  from Cons.prems have ty: "s_type s = TOK_INFIX" and fn: "s_function s = Code libm_cpow"
    and nx: "s_next s = d # pow_chain ds'" and dg: "isdigit d" and dgs: "list_all isdigit ds'"
    by (simp_all add: at_chain_def)
  let ?s1 = "tx_next_token M s"
  have s1: "?s1 = s\<lparr>s_next := pow_chain ds', s_type := TOK_NUMBER_R,
                      s_value := Finite (real (of_char d - 48))\<rparr>"
    using sd dg nx pow_chain_head[of ds'] by (rule next_token_digit)
  let ?s2 = "tx_next_token M (?s1\<lparr>s_mallocs := Suc (s_mallocs ?s1)\<rparr>)"
  have p: "power_tx M ?s1 = (const_node (digit d), ?s2)"
    using power_tx_number[OF al, of ?s1] s1 by (simp add: digit_def cx_def cx_of_double_def)
  have "s_next (?s1\<lparr>s_mallocs := Suc (s_mallocs ?s1)\<rparr>) = pow_chain ds'"
    using s1 by simp
  then have a2: "at_chain ?s2 ds'"
    by (rule at_chain_next_token)
  let ?s3 = "?s2\<lparr>s_mallocs := Suc (s_mallocs ?s2)\<rparr>"
  have a3: "at_chain ?s3 ds'"
    using a2 by simp
  have step: "factor_loop M ret s = factor_loop M (pure2 libm_cpow ret (const_node (digit d))) ?s3"
    using ty fn p binary_node_ok[OF al]
    by (subst factor_loop.simps) (simp add: const_node_def pure2_def)
  show ?case
    using Cons.IH[OF dgs a3, of "pure2 libm_cpow ret (const_node (digit d))"] step by simp
qed

lemma chain_tree_not_null:
  "ret \<noteq> NULL \<Longrightarrow> foldl (pure2 f) ret ts \<noteq> NULL"
  by (induction ts arbitrary: ret) (simp_all add: pure2_def)

lemma list_tx_chain:
  assumes sd: "single_digits M" and al: "allocates M"
    and d: "isdigit d" and ds: "list_all isdigit ds"
  shows "fst (list_tx M (tx_next_token M (initial_state (d # pow_chain ds) vars n)))
           = foldl (pure2 libm_cpow) (const_node (digit d)) (map (\<lambda>d. const_node (digit d)) ds)
       \<and> s_type (snd (list_tx M (tx_next_token M (initial_state (d # pow_chain ds) vars n)))) = TOK_END"
proof -
  let ?s0 = "initial_state (d # pow_chain ds) vars n"
  let ?s1 = "tx_next_token M ?s0"
  have nx: "s_next ?s0 = d # pow_chain ds"
    by (simp add: initial_state_def)
  have s1: "?s1 = ?s0\<lparr>s_next := pow_chain ds, s_type := TOK_NUMBER_R,
                      s_value := Finite (real (of_char d - 48))\<rparr>"
    using sd d nx pow_chain_head[of ds] by (rule next_token_digit)
  let ?s2 = "tx_next_token M (?s1\<lparr>s_mallocs := Suc (s_mallocs ?s1)\<rparr>)"
  have p: "power_tx M ?s1 = (const_node (digit d), ?s2)"
    using power_tx_number[OF al, of ?s1] s1 by (simp add: digit_def cx_def cx_of_double_def)
  have "s_next (?s1\<lparr>s_mallocs := Suc (s_mallocs ?s1)\<rparr>) = pow_chain ds"
    using s1 by simp
  then have a2: "at_chain ?s2 ds"
    by (rule at_chain_next_token)
  let ?tree = "foldl (pure2 libm_cpow) (const_node (digit d)) (map (\<lambda>d. const_node (digit d)) ds)"
  obtain r s3 where fl: "factor_loop M (const_node (digit d)) ?s2 = (r, s3)"
    by (cases "factor_loop M (const_node (digit d)) ?s2")
  have r: "r = ?tree" and e: "s_type s3 = TOK_END"
    using factor_loop_chain[OF sd al ds a2, of "const_node (digit d)"] fl by simp_all
  have nn: "r \<noteq> NULL"
    unfolding r by (rule chain_tree_not_null) (simp add: const_node_def)
  have f: "factor M ?s1 = (r, s3)"
    using p fl by (subst factor.simps) (simp add: const_node_def)
  have t: "term_tx M ?s1 = (r, s3)"
    using f nn e by (subst term_tx.simps) (simp add: loops_exit)
  have x: "expr M ?s1 = (r, s3)"
    using t nn e by (subst expr.simps) (simp add: loops_exit)
  have l: "list_tx M ?s1 = (r, s3)"
    using x nn e by (subst list_tx.simps) (simp add: loops_exit)
  show ?thesis
    using l r e by simp
qed

lemma optimize_chain:
  "optimize M mem (foldl (pure2 libm_cpow) (const_node v) (map const_node vs))
     = const_node (foldl (cpow M) v vs)"
proof (induction vs rule: rev_induct)
  case Nil
  show ?case by (simp add: const_node_def)
next
  case (snoc w vs)
  then show ?case
    by (simp add: pure2_def const_node_def IS_PURE_def ARITY_def TYPE_MASK_def
        is_function_type_def call_def known_call_def binary_def value_of_def pointer_of_def)
qed

lemma tx_compile_chain:
  assumes sd: "single_digits M" and al: "allocates M"
    and d: "isdigit d" and ds: "list_all isdigit ds"
  shows "tx_compile M mem (d # pow_chain ds) vars n
       = (const_node (foldl (cpow M) (digit d) (map digit ds)), 0)"
proof -
  let ?res = "list_tx M (tx_next_token M (initial_state (d # pow_chain ds) vars n))"
  let ?tree = "foldl (pure2 libm_cpow) (const_node (digit d)) (map (\<lambda>d. const_node (digit d)) ds)"
  have a: "fst ?res = ?tree" and b: "s_type (snd ?res) = TOK_END"
    using list_tx_chain[OF assms, of vars n] by simp_all
  have nn: "?tree \<noteq> NULL"
    by (rule chain_tree_not_null) (simp add: const_node_def)
  have o: "optimize M mem ?tree = const_node (foldl (cpow M) (digit d) (map digit ds))"
    using optimize_chain[of M mem "digit d" "map digit ds"] by (simp add: comp_def)
  obtain r s3 where l: "?res = (r, s3)"
    by (cases ?res)
  show ?thesis
    using a b nn o l by (simp add: tx_compile_def)
qed

lemma tx_interp_chain:
  assumes sd: "single_digits M" and al: "allocates M"
    and d: "isdigit d" and ds: "list_all isdigit ds"
  shows "tx_interp M mem (d # pow_chain ds) = (foldl (cpow M) (digit d) (map digit ds), 0)"
  using tx_compile_chain[OF assms, of mem "[]" 0]
  by (simp add: tx_interp_def const_node_def TYPE_MASK_def value_of_def)

lemma factor_loop_step:
  assumes "allocates M" and "s_type s = TOK_INFIX" and "s_function s = Code libm_cpow"
    and "power_tx M (tx_next_token M s) = (p, s1)" and "p \<noteq> NULL"
  shows "factor_loop M ret s = factor_loop M (pure2 libm_cpow ret p) (s1\<lparr>s_mallocs := Suc (s_mallocs s1)\<rparr>)"
  using assms binary_node_ok[OF assms(1)]
  by (subst factor_loop.simps) (simp add: pure2_def)

text \<open>
  Claim C3, as amended. \<^verbatim>\<open>^\<close> is parsed left-associatively. For every operand \<open>p\<close> that
  \<^verbatim>\<open>power\<close> reads after a \<^verbatim>\<open>^\<close>, \<^verbatim>\<open>factor\<close> makes the tree built so far the left child
  and \<open>p\<close> the right child of a new \<^verbatim>\<open>cpow\<close> node and goes on with that node. Hence
  the tree of a chain \<^verbatim>\<open>d0^d1^...^dn\<close> of digits is nested to the left and its value is
  \<open>cpow (... (cpow (cpow d0 d1) d2) ...) dn\<close>. Compiling and evaluating \<^verbatim>\<open>"2^3^2"\<close>
  with no bindings yields \<open>cpow (cpow 2 3) 2\<close>, the C library's value of \<open>(2^3)^2\<close>,
  which is \<open>64+0i\<close> where \<^verbatim>\<open>cpow\<close> is exact on these arguments; the tree is not that of
  \<open>2^(3^2)\<close>.
\<close>

theorem pow_left_assoc:
  assumes "single_digits M" and "allocates M" and "isdigit d" and "list_all isdigit ds"
  shows "parse M (d # pow_chain ds) [] 0
           = foldl (pure2 libm_cpow) (const_node (digit d)) (map (\<lambda>d. const_node (digit d)) ds)
       \<and> tx_interp M mem (d # pow_chain ds) = (foldl (cpow M) (digit d) (map digit ds), 0)
       \<and> (\<forall>s ret p s1. s_type s = TOK_INFIX \<and> s_function s = Code libm_cpow
              \<and> power_tx M (tx_next_token M s) = (p, s1) \<and> p \<noteq> NULL
            \<longrightarrow> factor_loop M ret s
                = factor_loop M (pure2 libm_cpow ret p) (s1\<lparr>s_mallocs := Suc (s_mallocs s1)\<rparr>))
       \<and> parse M ''2^3^2'' [] 0
           = pure2 libm_cpow (pure2 libm_cpow (const_node (cx 2)) (const_node (cx 3))) (const_node (cx 2))
       \<and> parse M ''2^3^2'' [] 0
           \<noteq> pure2 libm_cpow (const_node (cx 2)) (pure2 libm_cpow (const_node (cx 3)) (const_node (cx 2)))
       \<and> tx_interp M mem ''2^3^2'' = (cpow M (cpow M (cx 2) (cx 3)) (cx 2), 0)
       \<and> (cpow M (cx 2) (cx 3) = cx 8 \<and> cpow M (cx 8) (cx 2) = cx 64
            \<longrightarrow> tx_interp M mem ''2^3^2'' = (cx 64, 0))"
proof -
  have a: "parse M (d # pow_chain ds) [] 0
           = foldl (pure2 libm_cpow) (const_node (digit d)) (map (\<lambda>d. const_node (digit d)) ds)"
    using list_tx_chain[OF assms, of "[]" 0] by (simp add: parse_def)
  have b: "tx_interp M mem (d # pow_chain ds) = (foldl (cpow M) (digit d) (map digit ds), 0)"
    using assms by (rule tx_interp_chain)
  have c: "\<forall>s ret p s1. s_type s = TOK_INFIX \<and> s_function s = Code libm_cpow
              \<and> power_tx M (tx_next_token M s) = (p, s1) \<and> p \<noteq> NULL
            \<longrightarrow> factor_loop M ret s
                = factor_loop M (pure2 libm_cpow ret p) (s1\<lparr>s_mallocs := Suc (s_mallocs s1)\<rparr>)"
    using factor_loop_step[OF assms(2)] by blast
  have e: "parse M ''2^3^2'' [] 0
           = pure2 libm_cpow (pure2 libm_cpow (const_node (cx 2)) (const_node (cx 3))) (const_node (cx 2))"
    using assms(1,2) by (simp add: run_defs node_defs parser_simps env_simps)
  have f: "parse M ''2^3^2'' [] 0
           \<noteq> pure2 libm_cpow (const_node (cx 2)) (pure2 libm_cpow (const_node (cx 3)) (const_node (cx 2)))"
    unfolding e by (simp add: pure2_def const_node_def)
  have g: "tx_interp M mem ''2^3^2'' = (cpow M (cpow M (cx 2) (cx 3)) (cx 2), 0)"
    using assms(1,2) by (simp add: run_defs node_defs parser_simps env_simps)
  have h: "cpow M (cx 2) (cx 3) = cx 8 \<and> cpow M (cx 8) (cx 2) = cx 64
            \<longrightarrow> tx_interp M mem ''2^3^2'' = (cx 64, 0)"
    using g by simp
  from a b c e f g h show ?thesis
    by (intro conjI)
qed


text \<open>The hypotheses of C3 hold on the machine \<open>ideal\<close>, where the value is \<open>64+0i\<close>.\<close>

theorem pow_left_assoc_witness:
  "tx_interp ideal memory0 ''2^3^2'' = (cx 64, 0)
   \<and> fst (tx_interp ideal memory0 ''2^3^2'') \<noteq> cx 512
   \<and> parse ideal ''2^3^2'' [] 0
       = pure2 libm_cpow (pure2 libm_cpow (const_node (cx 2)) (const_node (cx 3))) (const_node (cx 2))
   \<and> tx_interp ideal memory0 (CHR ''2'' # pow_chain ''32'') = (cx 64, 0)"
proof -
  have d: "isdigit CHR ''2''" "list_all isdigit ''32''"
    by (simp_all add: isdigit_def)
  have c: "cpow ideal (cx 2) (cx 3) = cx 8 \<and> cpow ideal (cx 8) (cx 2) = cx 64"
    by (simp add: ideal_def ideal_cpow_def exact_def cx_def)
  note t = pow_left_assoc[OF single_digits_ideal allocates_ideal d, of memory0]
  have v: "foldl (cpow ideal) (digit CHR ''2'') (map digit ''32'') = cx 64"
    by (simp add: digit_def ideal_def ideal_cpow_def exact_def cx_def)
  have w: "tx_interp ideal memory0 ''2^3^2'' = (cx 64, 0)"
    using t c by blast
  have x: "tx_interp ideal memory0 (CHR ''2'' # pow_chain ''32'') = (cx 64, 0)"
    using t v by simp
  have y: "parse ideal ''2^3^2'' [] 0
       = pure2 libm_cpow (pure2 libm_cpow (const_node (cx 2)) (const_node (cx 3))) (const_node (cx 2))"
    using t by blast
  have z: "fst (tx_interp ideal memory0 ''2^3^2'') \<noteq> cx 512"
    unfolding w by (simp add: cx_def)
  from w z y x show ?thesis
    by (intro conjI)
qed


text \<open>
  Claim C3 as stated fails: with the rounded results of \<^verbatim>\<open>cpow\<close> the value of
  \<^verbatim>\<open>"2^3^2"\<close> is \<open>63.99999999999998+0i\<close>, not \<open>64+0i\<close>.
\<close>

theorem pow_rounded_counterexample:
  "tx_interp binary64 memory0 ''2^3^2'' = (cx (9007199254740989 / 2 ^ 47), 0)
   \<and> tx_interp binary64 memory0 ''2^3^2'' \<noteq> (cx 64, 0)"
  by (simp add: run_defs parser_simps ideal_defs binary64_def rounded_cpow_def)


section \<open>Unary signs and the power operator\<close>

lemma power_tx_shape:
  "fst (power_tx M s) = NULL
   \<or> fst (power_tx M s) = fst (base M (snd (power_signs M 1 s)))
   \<or> fst (power_tx M s) = pure1 fn_negate (fst (base M (snd (power_signs M 1 s))))"
  by (simp add: power_tx.simps new_expr_def ARITY_def pure1_def Let_def split: prod.split)


text \<open>
  Claim C4, as amended. \<^verbatim>\<open>power\<close> returns the node of its base or one \<^verbatim>\<open>negate\<close> node
  over it, whatever the number of signs in front, and \<^verbatim>\<open>factor\<close> applies \<^verbatim>\<open>^\<close> to that
  node: the tree of \<^verbatim>\<open>"-2^2"\<close> is \<open>cpow (negate 2) 2\<close>, not \<open>negate (cpow 2 2)\<close>, and
  compiling and evaluating it yields the C library's \<^verbatim>\<open>cpow\<close> of \<open>-(2+0i)\<close> and
  \<open>2+0i\<close>, which is \<open>4+0i\<close> where negation and \<^verbatim>\<open>cpow\<close> are exact.
\<close>

theorem sign_before_power:
  assumes "single_digits M" and "allocates M"
  shows "(\<forall>s. fst (power_tx M s) = NULL
            \<or> fst (power_tx M s) = fst (base M (snd (power_signs M 1 s)))
            \<or> fst (power_tx M s) = pure1 fn_negate (fst (base M (snd (power_signs M 1 s)))))
       \<and> parse M ''-2^2'' [] 0
           = pure2 libm_cpow (pure1 fn_negate (const_node (cx 2))) (const_node (cx 2))
       \<and> parse M ''--2^2'' [] 0 = pure2 libm_cpow (const_node (cx 2)) (const_node (cx 2))
       \<and> parse M ''-+--2^2'' [] 0
           = pure2 libm_cpow (pure1 fn_negate (const_node (cx 2))) (const_node (cx 2))
       \<and> parse M ''-2^2'' [] 0
           \<noteq> pure1 fn_negate (pure2 libm_cpow (const_node (cx 2)) (const_node (cx 2)))
       \<and> tx_interp M mem ''-2^2'' = (cpow M (cx_neg M (cx 2)) (cx 2), 0)"
  using assms power_tx_shape by (simp add: run_defs node_defs parser_simps env_simps)


text \<open>The hypotheses of C4 hold on the machine \<open>ideal\<close>, where the value is \<open>4+0i\<close>.\<close>

theorem sign_before_power_witness:
  "parse ideal ''-2^2'' [] 0
           = pure2 libm_cpow (pure1 fn_negate (const_node (cx 2))) (const_node (cx 2))
       \<and> tx_interp ideal memory0 ''-2^2'' = (cx 4, 0)"
  using sign_before_power[of ideal memory0] single_digits_ideal allocates_ideal
  by (simp add: ideal_def ideal_cpow_def exact_def cx_def)


text \<open>
  Claim C4 as stated fails: \<^verbatim>\<open>negate\<close> gives \<open>-2-0i\<close>, and the rounded result of
  \<^verbatim>\<open>cpow\<close> for it and \<open>2+0i\<close> has the imaginary part \<open>9.797174393178826e-16\<close>, not
  zero.
\<close>

theorem sign_rounded_counterexample:
  "tx_interp binary64 memory0 ''-2^2'' = (Cx (Finite 4) (Finite (4967757600021511 / 2 ^ 102)), 0)
   \<and> tx_interp binary64 memory0 ''-2^2'' \<noteq> (cx 4, 0)"
  by (simp add: run_defs parser_simps ideal_defs binary64_def rounded_cpow_def)


section \<open>What the optimizer folds\<close>

definition impure_f :: tx_variable where
  "impure_f = \<lparr>var_name = ''f'', var_address = Code (Native 0), var_type = TX_FUNCTION1,
               var_context = NULL_ptr\<rparr>"

definition var_x :: "pointer \<Rightarrow> tx_variable" where
  "var_x p = \<lparr>var_name = ''x'', var_address = p, var_type = TX_VARIABLE, var_context = NULL_ptr\<rparr>"

text \<open>
  Claim C5 fails on the code. \<^verbatim>\<open>optimize\<close> returns at a node that is not marked pure
  without visiting its children: with the caller's impure function \<^verbatim>\<open>f\<close> of arity 1, the
  compiled tree of \<^verbatim>\<open>"f(2+3)"\<close> keeps the child \<open>add 2 3\<close>, a pure node whose children
  are both constants. Below a pure node that cannot be folded the same child is folded
  (\<^verbatim>\<open>"x+(2+3)"\<close>), and \<^verbatim>\<open>"2+3"\<close> compiles to a single Constant node.
\<close>

theorem optimize_skips_below_impure:
  "tx_compile ideal memory0 ''f(2+3)'' [impure_f] 1
     = (Expr TX_FUNCTION1 (Ptr (Code (Native 0)))
          [pure2 fn_add (const_node (cx 2)) (const_node (cx 3))] NULL_ptr, 0)
   \<and> IS_PURE (etype (pure2 fn_add (const_node (cx 2)) (const_node (cx 3))))
   \<and> list_all is_constant (parameters (pure2 fn_add (const_node (cx 2)) (const_node (cx 3))))
   \<and> \<not> is_constant (pure2 fn_add (const_node (cx 2)) (const_node (cx 3)))
   \<and> tx_compile ideal memory0 ''x+(2+3)'' [var_x (Storage 0)] 1
     = (pure2 fn_add (var_node (Storage 0)) (const_node (cx 5)), 0)
   \<and> tx_compile ideal memory0 ''2+3'' [] 0 = (const_node (cx 5), 0)"
  by (simp add: run_defs node_defs parser_simps ideal_defs impure_f_def var_x_def)

section \<open>Live binding\<close>




section \<open>Resolving identifiers\<close>

definition var_pi :: "pointer \<Rightarrow> tx_variable" where
  "var_pi p = \<lparr>var_name = ''pi'', var_address = p, var_type = TX_VARIABLE, var_context = NULL_ptr\<rparr>"

definition builtin_pi :: d_cx where
  "builtin_pi = cx_of_double pi_literal"

lemma read_identifier_lookup:
  "read_identifier s =
     (let rest = dropWhile ident_char (s_next s);
          len = length (s_next s) - length rest
      in case find_lookup_loop (s_lookup s) (s_next s) len of
           Some var \<Rightarrow> token_of_symbol var (s\<lparr>s_next := rest\<rparr>)
         | None \<Rightarrow>
             (case find_builtin (s_next s) len of
                Some var \<Rightarrow> token_of_symbol var (s\<lparr>s_next := rest\<rparr>)
              | None \<Rightarrow> s\<lparr>s_next := rest, s_type := TOK_ERROR\<rparr>))"
  by (simp add: read_identifier_def find_lookup_def Let_def split: option.splits)

lemma find_lookup_loop_first:
  "find_lookup_loop (vars @ var # vars') name len = Some var"
  if "\<forall>v \<in> set vars. \<not> (strncmp name (var_name v) len = 0 \<and> char_at (var_name v) len = 0)"
    and "strncmp name (var_name var) len = 0 \<and> char_at (var_name var) len = 0"
  using that by (induction vars) auto

text \<open>
  Claim C7. An identifier is looked up in the caller's bindings first, in their order (the
  first binding whose name is the lexeme wins), and in the table of builtins only when no
  binding matches. A variable binding named \<^verbatim>\<open>pi\<close> holding \<open>4+0i\<close> makes \<^verbatim>\<open>"pi"\<close>
  evaluate to \<open>4+0i\<close>; without it \<^verbatim>\<open>"pi"\<close> is the builtin constant.
\<close>

theorem binding_shadows_builtin:
  assumes "allocates M" and "mem p = cx 4"
  shows "(\<forall>s. read_identifier s =
            (let rest = dropWhile ident_char (s_next s);
                 len = length (s_next s) - length rest
             in case find_lookup_loop (s_lookup s) (s_next s) len of
                  Some var \<Rightarrow> token_of_symbol var (s\<lparr>s_next := rest\<rparr>)
                | None \<Rightarrow>
                    (case find_builtin (s_next s) len of
                       Some var \<Rightarrow> token_of_symbol var (s\<lparr>s_next := rest\<rparr>)
                     | None \<Rightarrow> s\<lparr>s_next := rest, s_type := TOK_ERROR\<rparr>)))
       \<and> (\<forall>vars var vars' name len.
            (\<forall>v \<in> set vars. \<not> (strncmp name (var_name v) len = 0 \<and> char_at (var_name v) len = 0))
            \<and> strncmp name (var_name var) len = 0 \<and> char_at (var_name var) len = 0
            \<longrightarrow> find_lookup_loop (vars @ var # vars') name len = Some var)
       \<and> tx_compile M mem ''pi'' [var_pi p] 1 = (var_node p, 0)
       \<and> tx_eval M mem (fst (tx_compile M mem ''pi'' [var_pi p] 1)) = cx 4
       \<and> tx_compile M mem ''pi'' [var_pi p, var_pi q] 2 = (var_node p, 0)
       \<and> tx_interp M mem ''pi'' = (builtin_pi, 0)"
proof -
  have c: "tx_compile M mem ''pi'' [var_pi p] 1 = (var_node p, 0)"
    "tx_compile M mem ''pi'' [var_pi p, var_pi q] 2 = (var_node p, 0)"
    "tx_interp M mem ''pi'' = (builtin_pi, 0)"
    using assms by (simp_all add: run_defs node_defs parser_simps env_simps var_pi_def builtin_pi_def)
  have d: "tx_eval M mem (fst (tx_compile M mem ''pi'' [var_pi p] 1)) = cx 4"
    using assms c by (simp add: var_node_def TYPE_MASK_def pointer_of_def)
  have f: "\<forall>vars var vars' name len.
            (\<forall>v \<in> set vars. \<not> (strncmp name (var_name v) len = 0 \<and> char_at (var_name v) len = 0))
            \<and> strncmp name (var_name var) len = 0 \<and> char_at (var_name var) len = 0
            \<longrightarrow> find_lookup_loop (vars @ var # vars') name len = Some var"
    using find_lookup_loop_first by blast
  have a: "\<forall>s. read_identifier s =
            (let rest = dropWhile ident_char (s_next s);
                 len = length (s_next s) - length rest
             in case find_lookup_loop (s_lookup s) (s_next s) len of
                  Some var \<Rightarrow> token_of_symbol var (s\<lparr>s_next := rest\<rparr>)
                | None \<Rightarrow>
                    (case find_builtin (s_next s) len of
                       Some var \<Rightarrow> token_of_symbol var (s\<lparr>s_next := rest\<rparr>)
                     | None \<Rightarrow> s\<lparr>s_next := rest, s_type := TOK_ERROR\<rparr>))"
    by (rule allI) (rule read_identifier_lookup)
  from a f c(1) d c(2) c(3) show ?thesis
    by (intro conjI)
qed

text \<open>The hypotheses of C7 hold on the machine \<open>ideal\<close>.\<close>

theorem binding_shadows_builtin_witness:
  "tx_eval ideal (memory0(Storage 0 := cx 4))
     (fst (tx_compile ideal (memory0(Storage 0 := cx 4)) ''pi'' [var_pi (Storage 0)] 1)) = cx 4
   \<and> tx_compile ideal (memory0(Storage 0 := cx 4)) ''pi'' [var_pi (Storage 0), var_pi (Storage 1)] 2
       = (var_node (Storage 0), 0)
   \<and> tx_interp ideal (memory0(Storage 0 := cx 4)) ''pi'' = (builtin_pi, 0)"
proof -
  have "(memory0(Storage 0 := cx 4)) (Storage 0) = cx 4"
    by simp
  then show ?thesis
    by (rule binding_shadows_builtin[of ideal "memory0(Storage 0 := cx 4)" "Storage 0" "Storage 1",
          OF allocates_ideal, THEN conjunct2, THEN conjunct2, THEN conjunct2])
qed

section \<open>Arity of calls\<close>

text \<open>
  The types of the functions and closures of arity two or more; a binding \<^verbatim>\<open>g\<close> of the
  caller; and the text \<^verbatim>\<open>g(d,d1,...,dn)\<close> of a call with digits as arguments.
\<close>

definition nary_types :: "int set" where
  "nary_types = {TX_FUNCTION2, TX_FUNCTION3, TX_FUNCTION4, TX_FUNCTION5, TX_FUNCTION6,
                 TX_CLOSURE2, TX_CLOSURE3, TX_CLOSURE4, TX_CLOSURE5, TX_CLOSURE6}"

definition var_g :: "int \<Rightarrow> pointer \<Rightarrow> pointer \<Rightarrow> tx_variable" where
  "var_g t p c = \<lparr>var_name = ''g'', var_address = p, var_type = t, var_context = c\<rparr>"

definition args_tail :: "string \<Rightarrow> string" where
  "args_tail ds = concat (map (\<lambda>d. [CHR '','', d]) ds) @ '')''"

definition call_text :: "char \<Rightarrow> string \<Rightarrow> string" where
  "call_text d ds = ''g('' @ d # args_tail ds"

lemma mask_arity: "TYPE_MASK t \<in> nary_types \<Longrightarrow> ARITY t = TYPE_MASK t AND 7"
proof -
  assume a: "TYPE_MASK t \<in> nary_types"
  have 1: "t AND 7 = TYPE_MASK t AND 7"
    by (simp add: TYPE_MASK_def and.assoc)
  have 2: "t AND 24 = TYPE_MASK t AND 24"
    by (simp add: TYPE_MASK_def and.assoc)
  have A: "ARITY t = (if TYPE_MASK t AND 24 \<noteq> 0 then TYPE_MASK t AND 7 else 0)"
    unfolding ARITY_def using 1 2 by simp
  show ?thesis
    using a unfolding A nary_types_def by auto
qed

lemma mask_closure: "IS_CLOSURE t = IS_CLOSURE (TYPE_MASK t)"
proof -
  have "t AND 16 = (t AND 31) AND 16"
    by (simp add: and.assoc)
  then show ?thesis
    by (simp add: IS_CLOSURE_def TYPE_MASK_def)
qed

lemma nary_arity: "TYPE_MASK t \<in> nary_types \<Longrightarrow> 2 \<le> ARITY t \<and> ARITY t \<le> 6"
  by (auto simp: mask_arity nary_types_def)

lemma nary_not_token:
  "TYPE_MASK t \<in> nary_types \<Longrightarrow> t \<noteq> TOK_NULL \<and> t \<noteq> TOK_INFIX \<and> t \<noteq> TOK_SEP"
  by (auto simp: nary_types_def TYPE_MASK_def)


lemma next_token_g:
  assumes nx: "s_next s = CHR ''g'' # CHR ''('' # rest" and lk: "s_lookup s = [var_g t p c]"
    and m: "TYPE_MASK t \<in> nary_types"
  shows "tx_next_token M s
       = (if is_closure_type (TYPE_MASK t)
          then s\<lparr>s_next := CHR ''('' # rest, s_context := c, s_type := t, s_function := p\<rparr>
          else s\<lparr>s_next := CHR ''('' # rest, s_type := t, s_function := p\<rparr>)"
proof -
  let ?s0 = "s\<lparr>s_type := TOK_NULL\<rparr>"
  have fl: "find_lookup (?s0\<lparr>s_next := CHR ''('' # rest\<rparr>) (CHR ''g'' # CHR ''('' # rest) 1
              = Some (var_g t p c)"
    using lk by (simp add: find_lookup_def var_g_def char_at_def)
  have dw: "ident_char CHR ''g''" "\<not> ident_char CHR ''(''"
    by (simp_all add: ident_char_def isalpha_def isdigit_def)
  have fc: "is_closure_type (TYPE_MASK t) \<or> is_function_type (TYPE_MASK t)"
    using m by (auto simp: nary_types_def is_closure_type_def is_function_type_def)
  have nv: "TYPE_MASK t \<noteq> TX_VARIABLE"
    using m by (auto simp: nary_types_def)
  have ri: "read_identifier ?s0
       = (if is_closure_type (TYPE_MASK t)
          then s\<lparr>s_next := CHR ''('' # rest, s_context := c, s_type := t, s_function := p\<rparr>
          else s\<lparr>s_next := CHR ''('' # rest, s_type := t, s_function := p\<rparr>)"
    using nx fl fc nv
    by (auto simp: read_identifier_def token_of_symbol_def Let_def var_g_def dw)
  have ts: "token_step M ?s0 = read_identifier ?s0"
    using nx by (simp add: token_step_def isdigit_def isalpha_def)
  have "s_type (token_step M ?s0) = t"
    unfolding ts ri by simp
  then have "s_type (token_step M ?s0) \<noteq> TOK_NULL"
    using nary_not_token[OF m] by simp
  then show ?thesis
    using ts ri by (simp add: tx_next_token_def token_loop_done)
qed

lemma expr_number:
  assumes al: "allocates M" and ty: "s_type s = TOK_NUMBER_R"
    and nt: "s_type (tx_next_token M (s\<lparr>s_mallocs := Suc (s_mallocs s)\<rparr>)) \<noteq> TOK_INFIX"
  shows "expr M s = (const_node (cx_of_double (s_value s)),
                     tx_next_token M (s\<lparr>s_mallocs := Suc (s_mallocs s)\<rparr>))"
proof -
  let ?r = "const_node (cx_of_double (s_value s))"
  let ?s' = "tx_next_token M (s\<lparr>s_mallocs := Suc (s_mallocs s)\<rparr>)"
  have nn: "?r \<noteq> NULL"
    by (simp add: const_node_def)
  have p: "power_tx M s = (?r, ?s')"
    using al ty by (rule power_tx_number)
  have f: "factor M s = (?r, ?s')"
    using p nn nt by (subst factor.simps) (simp add: loops_exit)
  have t: "term_tx M s = (?r, ?s')"
    using f nn nt by (subst term_tx.simps) (simp add: loops_exit)
  show ?thesis
    using t nn nt by (subst expr.simps) (simp add: loops_exit)
qed

lemma args_tail_head: "hd (args_tail ds) \<in> operator_chars"
  by (cases ds) (simp_all add: args_tail_def operator_chars_def)

lemma set_parameter_not_null: "ret \<noteq> NULL \<Longrightarrow> set_parameter i p ret \<noteq> NULL"
  by (cases ret) simp_all

lemma expr_digit_arg:
  assumes sd: "single_digits M" and al: "allocates M" and d: "isdigit d"
    and nx: "s_next s = d # args_tail ds"
  shows "expr M (tx_next_token M s)
       = (const_node (digit d),
          (case ds of
             [] \<Rightarrow> s\<lparr>s_next := [], s_type := TOK_CLOSE, s_value := Finite (real (of_char d - 48)),
                     s_mallocs := Suc (s_mallocs s)\<rparr>
           | d' # ds' \<Rightarrow> s\<lparr>s_next := d' # args_tail ds', s_type := TOK_SEP,
                     s_value := Finite (real (of_char d - 48)), s_mallocs := Suc (s_mallocs s)\<rparr>))"
proof -
  let ?s1 = "tx_next_token M s"
  have s1: "?s1 = s\<lparr>s_next := args_tail ds, s_type := TOK_NUMBER_R,
                      s_value := Finite (real (of_char d - 48))\<rparr>"
    using sd d nx args_tail_head[of ds] by (intro next_token_digit) simp_all
  let ?s2 = "tx_next_token M (?s1\<lparr>s_mallocs := Suc (s_mallocs ?s1)\<rparr>)"
  have s2: "?s2 = (case ds of
             [] \<Rightarrow> s\<lparr>s_next := [], s_type := TOK_CLOSE, s_value := Finite (real (of_char d - 48)),
                     s_mallocs := Suc (s_mallocs s)\<rparr>
           | d' # ds' \<Rightarrow> s\<lparr>s_next := d' # args_tail ds', s_type := TOK_SEP,
                     s_value := Finite (real (of_char d - 48)), s_mallocs := Suc (s_mallocs s)\<rparr>)"
  proof (cases ds)
    case Nil
    then have "s_next (?s1\<lparr>s_mallocs := Suc (s_mallocs ?s1)\<rparr>) = CHR '')'' # []"
      using s1 by (simp add: args_tail_def)
    then show ?thesis
      using Nil s1 by (simp add: next_token_close)
  next
    case (Cons d' ds')
    then have "s_next (?s1\<lparr>s_mallocs := Suc (s_mallocs ?s1)\<rparr>) = CHR '','' # d' # args_tail ds'"
      using s1 by (simp add: args_tail_def)
    then show ?thesis
      using Cons s1 by (simp add: next_token_comma)
  qed
  have nt: "s_type ?s2 \<noteq> TOK_INFIX"
    unfolding s2 by (simp split: list.splits)
  have "expr M ?s1 = (const_node (cx_of_double (s_value ?s1)), ?s2)"
    using al _ nt by (rule expr_number) (simp add: s1)
  then show ?thesis
    using s1 s2 by (simp add: digit_def cx_def cx_of_double_def)
qed

lemma base_args_digits:
  assumes sd: "single_digits M" and al: "allocates M"
  shows "list_all isdigit ds \<Longrightarrow> isdigit d \<Longrightarrow> i < n \<Longrightarrow> s_next s = d # args_tail ds
     \<Longrightarrow> ret \<noteq> NULL
     \<Longrightarrow> (case base_args M n i ret s of
           (ret', i', s') \<Rightarrow>
             ret' \<noteq> NULL \<and> s_start s' = s_start s
             \<and> (if i + length ds < n
                then i' = i + length ds \<and> s_type s' = TOK_CLOSE \<and> s_next s' = []
                else i' = n \<and> s_type s' = TOK_SEP
                     \<and> length (s_next s') + 2 * (n - i) = length (s_next s)))"
proof (induction ds arbitrary: d i s ret)
  case Nil
  have e: "expr M (tx_next_token M s)
      = (const_node (digit d),
         s\<lparr>s_next := [], s_type := TOK_CLOSE, s_value := Finite (real (of_char d - 48)),
           s_mallocs := Suc (s_mallocs s)\<rparr>)"
    using expr_digit_arg[OF sd al Nil.prems(2), of s "[]"] Nil.prems(4) by simp
  show ?case
    using Nil.prems(3,5) e
    by (subst base_args.simps) (simp add: const_node_def set_parameter_not_null)
next
  case (Cons d' ds')
  let ?s1 = "s\<lparr>s_next := d' # args_tail ds', s_type := TOK_SEP,
              s_value := Finite (real (of_char d - 48)), s_mallocs := Suc (s_mallocs s)\<rparr>"
  let ?ret1 = "set_parameter i (const_node (digit d)) ret"
  have e: "expr M (tx_next_token M s) = (const_node (digit d), ?s1)"
    using expr_digit_arg[OF sd al Cons.prems(2), of s "d' # ds'"] Cons.prems(4) by simp
  have step: "base_args M n i ret s = base_args M n (Suc i) ?ret1 ?s1"
    using Cons.prems(3) e by (subst base_args.simps) (simp add: const_node_def)
  have r1: "?ret1 \<noteq> NULL"
    using Cons.prems(5) by (rule set_parameter_not_null)
  have dg: "isdigit d'" "list_all isdigit ds'"
    using Cons.prems(1) by simp_all
  have len: "length (s_next s) = Suc (Suc (length (s_next ?s1)))"
    using Cons.prems(4) by (simp add: args_tail_def)
  show ?case
  proof (cases "Suc i < n")
    case True
    have ih: "case base_args M n (Suc i) ?ret1 ?s1 of
           (ret', i', s') \<Rightarrow>
             ret' \<noteq> NULL \<and> s_start s' = s_start ?s1
             \<and> (if Suc i + length ds' < n
                then i' = Suc i + length ds' \<and> s_type s' = TOK_CLOSE \<and> s_next s' = []
                else i' = n \<and> s_type s' = TOK_SEP
                     \<and> length (s_next s') + 2 * (n - Suc i) = length (s_next ?s1))"
      by (rule Cons.IH[OF dg(2) dg(1) True _ r1]) simp
    obtain ret' i' s' where b: "base_args M n (Suc i) ?ret1 ?s1 = (ret', i', s')"
      by (cases "base_args M n (Suc i) ?ret1 ?s1")
    show ?thesis
      using ih True len unfolding step b by (auto split: if_splits)
  next
    case False
    then have eq: "Suc i = n"
      using Cons.prems(3) by simp
    have "base_args M n (Suc i) ?ret1 ?s1 = (?ret1, Suc i, ?s1)"
      using False by (subst base_args.simps) simp
    then show ?thesis
      using r1 eq len unfolding step by simp
  qed
qed

lemma base_nary:
  assumes al: "allocates M" and m: "TYPE_MASK (s_type s) \<in> nary_types"
    and op: "s_type (tx_next_token M (s\<lparr>s_mallocs := Suc (s_mallocs s)\<rparr>)) = TOK_OPEN"
    and args: "base_args M (nat (ARITY (s_type s))) 0
                 (call_node (s\<lparr>s_mallocs := Suc (s_mallocs s)\<rparr>)
                    (Expr (s_type s) (Ptr NULL_ptr) (replicate (nat (ARITY (s_type s))) NULL) NULL_ptr))
                 (tx_next_token M (s\<lparr>s_mallocs := Suc (s_mallocs s)\<rparr>)) = (ret, i, s3)"
    and nn: "ret \<noteq> NULL"
  shows "base M s = (if s_type s3 \<noteq> TOK_CLOSE \<or> int i \<noteq> int (nat (ARITY (s_type s))) - 1
                     then (ret, s3\<lparr>s_type := TOK_ERROR\<rparr>)
                     else (ret, tx_next_token M s3))"
proof -
  have ne: "new_expr M (s_type s) None s
      = (Expr (s_type s) (Ptr NULL_ptr) (replicate (nat (ARITY (s_type s))) NULL) NULL_ptr,
         s\<lparr>s_mallocs := Suc (s_mallocs s)\<rparr>)"
    using al by (simp add: new_expr_def allocatesD)
  show ?thesis
    using m unfolding nary_types_def
    apply (subst base.simps)
    apply (simp only: insert_iff empty_iff)
    apply (elim disjE)
             apply (simp_all add: Let_def ne op args nn)
    done
qed


lemma list_tx_of_base:
  assumes "s_type s \<noteq> TOK_INFIX" and "base M s = (r, s')" and "r \<noteq> NULL"
    and "s_type s' \<noteq> TOK_INFIX" and "s_type s' \<noteq> TOK_SEP"
  shows "list_tx M s = (r, s')"
proof -
  have "power_signs M 1 s = (1, s)"
    using assms(1) by (subst power_signs.simps) (simp add: is_sign_def)
  then have p: "power_tx M s = (r, s')"
    using assms(2) by (subst power_tx.simps) simp
  have f: "factor M s = (r, s')"
    using p assms(3,4) by (subst factor.simps) (simp add: loops_exit)
  have t: "term_tx M s = (r, s')"
    using f assms(3,4) by (subst term_tx.simps) (simp add: loops_exit)
  have x: "expr M s = (r, s')"
    using t assms(3,4) by (subst expr.simps) (simp add: loops_exit)
  show ?thesis
    using x assms(3,5) by (subst list_tx.simps) (simp add: loops_exit)
qed

lemma call_node_not_null: "call_node s (Expr t u ps c) \<noteq> NULL"
  by (simp add: call_node_def Let_def)

lemma optimize_not_null: "n \<noteq> NULL \<Longrightarrow> optimize M mem n \<noteq> NULL"
  by (cases n) (simp_all add: Let_def)

lemma length_call_text: "length (call_text d ds) = 2 * length ds + 4"
  by (simp add: call_text_def args_tail_def length_concat comp_def sum_list_triv)

lemma compile_call:
  assumes sd: "single_digits M" and al: "allocates M" and m: "TYPE_MASK t \<in> nary_types"
    and d: "isdigit d" and ds: "list_all isdigit ds"
  shows "(Suc (length ds) = nat (ARITY t)
            \<longrightarrow> fst (tx_compile M mem (call_text d ds) [var_g t p c] 1) \<noteq> NULL
                \<and> snd (tx_compile M mem (call_text d ds) [var_g t p c] 1) = 0)
       \<and> (Suc (length ds) < nat (ARITY t)
            \<longrightarrow> tx_compile M mem (call_text d ds) [var_g t p c] 1
                = (NULL, int (length (call_text d ds))))
       \<and> (nat (ARITY t) < Suc (length ds)
            \<longrightarrow> tx_compile M mem (call_text d ds) [var_g t p c] 1 = (NULL, 2 * ARITY t + 2))"
proof -
  let ?n = "nat (ARITY t)"
  let ?s0 = "initial_state (call_text d ds) [var_g t p c] 1"
  let ?sA = "tx_next_token M ?s0"
  have nx0: "s_next ?s0 = CHR ''g'' # CHR ''('' # d # args_tail ds"
    and lk0: "s_lookup ?s0 = [var_g t p c]"
    and st0: "s_start ?s0 = call_text d ds"
    by (simp_all add: initial_state_def call_text_def)
  have sA: "?sA = (if is_closure_type (TYPE_MASK t)
          then ?s0\<lparr>s_next := CHR ''('' # d # args_tail ds, s_context := c, s_type := t, s_function := p\<rparr>
          else ?s0\<lparr>s_next := CHR ''('' # d # args_tail ds, s_type := t, s_function := p\<rparr>)"
    using nx0 lk0 m by (rule next_token_g)
  have tyA: "s_type ?sA = t" and nxA: "s_next ?sA = CHR ''('' # d # args_tail ds"
    and stA: "s_start ?sA = call_text d ds"
    unfolding sA using st0 by simp_all
  let ?sA' = "?sA\<lparr>s_mallocs := Suc (s_mallocs ?sA)\<rparr>"
  let ?sB = "tx_next_token M ?sA'"
  have sB: "?sB = ?sA'\<lparr>s_next := d # args_tail ds, s_type := TOK_OPEN\<rparr>"
    by (rule next_token_open) (simp add: nxA)
  have tyB: "s_type ?sB = TOK_OPEN" and nxB: "s_next ?sB = d # args_tail ds"
    and stB: "s_start ?sB = call_text d ds"
    unfolding sB using stA by simp_all
  let ?node = "call_node ?sA' (Expr t (Ptr NULL_ptr) (replicate ?n NULL) NULL_ptr)"
  have n2: "2 \<le> ARITY t"
    using nary_arity[OF m] by simp
  then have pos: "0 < ?n"
    by simp
  obtain ret i s3 where ba: "base_args M ?n 0 ?node ?sB = (ret, i, s3)"
    by (cases "base_args M ?n 0 ?node ?sB")
  have spec: "ret \<noteq> NULL \<and> s_start s3 = call_text d ds
             \<and> (if length ds < ?n
                then i = length ds \<and> s_type s3 = TOK_CLOSE \<and> s_next s3 = []
                else i = ?n \<and> s_type s3 = TOK_SEP
                     \<and> length (s_next s3) + 2 * ?n = length (s_next ?sB))"
    using base_args_digits[OF sd al ds d pos nxB call_node_not_null, of ?sA' t "Ptr NULL_ptr"
        "replicate ?n NULL" NULL_ptr] stB
    unfolding ba by (simp split: if_splits)
  then have nn: "ret \<noteq> NULL" and st3: "s_start s3 = call_text d ds"
    by simp_all
  have b: "base M ?sA = (if s_type s3 \<noteq> TOK_CLOSE \<or> int i \<noteq> int ?n - 1
                     then (ret, s3\<lparr>s_type := TOK_ERROR\<rparr>)
                     else (ret, tx_next_token M s3))"
    using base_nary[OF al, of ?sA ret i s3] m tyA tyB ba nn by simp
  have ninf: "s_type ?sA \<noteq> TOK_INFIX"
    using nary_not_token[OF m] tyA by simp
  have len: "length (call_text d ds) = 2 * length ds + 4"
    by (rule length_call_text)
  have lenB: "length (s_next ?sB) = 2 * length ds + 2"
    unfolding nxB by (simp add: args_tail_def length_concat comp_def sum_list_triv)
  have eq: "fst (tx_compile M mem (call_text d ds) [var_g t p c] 1) \<noteq> NULL
          \<and> snd (tx_compile M mem (call_text d ds) [var_g t p c] 1) = 0"
    if k: "Suc (length ds) = ?n"
  proof -
    have c: "i = length ds" "s_type s3 = TOK_CLOSE" "s_next s3 = []"
      using spec k by simp_all
    have "int i = int ?n - 1"
      using c(1) k n2 by linarith
    then have b': "base M ?sA = (ret, tx_next_token M s3)"
      using b c(2) by simp
    have e: "tx_next_token M s3 = s3\<lparr>s_type := TOK_END\<rparr>"
      using c(3) by (rule next_token_end)
    have "list_tx M ?sA = (ret, s3\<lparr>s_type := TOK_END\<rparr>)"
      using ninf b' nn unfolding e by (rule list_tx_of_base) simp_all
    then show ?thesis
      using nn by (simp add: tx_compile_def optimize_not_null)
  qed
  have lt: "tx_compile M mem (call_text d ds) [var_g t p c] 1
                = (NULL, int (length (call_text d ds)))"
    if k: "Suc (length ds) < ?n"
  proof -
    have c: "i = length ds" "s_type s3 = TOK_CLOSE" "s_next s3 = []"
      using spec k by simp_all
    have "int i \<noteq> int ?n - 1"
      using c(1) k n2 by linarith
    then have b': "base M ?sA = (ret, s3\<lparr>s_type := TOK_ERROR\<rparr>)"
      using b by simp
    have "list_tx M ?sA = (ret, s3\<lparr>s_type := TOK_ERROR\<rparr>)"
      using ninf b' nn by (rule list_tx_of_base) simp_all
    then show ?thesis
      using nn st3 c(3) len by (simp add: tx_compile_def)
  qed
  have gt: "tx_compile M mem (call_text d ds) [var_g t p c] 1 = (NULL, 2 * ARITY t + 2)"
    if k: "?n < Suc (length ds)"
  proof -
    have c: "i = ?n" "s_type s3 = TOK_SEP" "length (s_next s3) + 2 * ?n = length (s_next ?sB)"
      using spec k by simp_all
    have b': "base M ?sA = (ret, s3\<lparr>s_type := TOK_ERROR\<rparr>)"
      using b c(2) by simp
    have l: "list_tx M ?sA = (ret, s3\<lparr>s_type := TOK_ERROR\<rparr>)"
      using ninf b' nn by (rule list_tx_of_base) simp_all
    have "int (length (call_text d ds)) - int (length (s_next s3)) = 2 * ARITY t + 2"
      using c(3) lenB len n2 by simp
    then show ?thesis
      using l nn st3 n2 by (simp add: tx_compile_def)
  qed
  from eq lt gt show ?thesis
    by blast
qed

lemma replicate_numeral_node: "replicate (numeral k) (x :: tx_expr) = x # replicate (pred_numeral k) x"
  by (simp add: numeral_eq_Suc)

lemma last_call_text: "last (call_text d ds) = CHR '')''"
  by (simp add: call_text_def args_tail_def)

text \<open>
  Claim C8. A call of a function or closure of arity two or more (pure or not) compiles
  only with exactly as many arguments as its arity. With fewer arguments compilation
  returns no handle and the offset past the closing parenthesis, the last character of
  the text; with more it returns no handle and the offset past the comma that follows the
  last argument the function takes. Compiling \<^verbatim>\<open>"pow(2)"\<close> returns no handle and the
  offset 6, past the closing parenthesis at offset 5, while \<^verbatim>\<open>"pow(2,3)"\<close> compiles.
\<close>

theorem arity_enforced:
  assumes "single_digits M" and "allocates M" and "TYPE_MASK t \<in> nary_types"
    and "isdigit d" and "list_all isdigit ds"
  shows "(Suc (length ds) = nat (ARITY t)
            \<longrightarrow> fst (tx_compile M mem (call_text d ds) [var_g t p c] 1) \<noteq> NULL
                \<and> snd (tx_compile M mem (call_text d ds) [var_g t p c] 1) = 0)
       \<and> (Suc (length ds) < nat (ARITY t)
            \<longrightarrow> tx_compile M mem (call_text d ds) [var_g t p c] 1
                = (NULL, int (length (call_text d ds))))
       \<and> (nat (ARITY t) < Suc (length ds)
            \<longrightarrow> tx_compile M mem (call_text d ds) [var_g t p c] 1 = (NULL, 2 * ARITY t + 2))
       \<and> last (call_text d ds) = CHR '')''
       \<and> tx_compile M mem ''pow(2)'' [] 0 = (NULL, 6)
       \<and> ''pow(2)'' ! 5 = CHR '')'' \<and> (5::int) \<le> 6
       \<and> tx_compile M mem ''pow(2,3,4)'' [] 0 = (NULL, 8)
       \<and> tx_compile M mem ''pow(2,3)'' [] 0 = (const_node (cpow M (cx 2) (cx 3)), 0)"
proof -
  note a = compile_call[OF assms, of mem p c]
  have b: "tx_compile M mem ''pow(2)'' [] 0 = (NULL, 6)
       \<and> ''pow(2)'' ! 5 = CHR '')'' \<and> (5::int) \<le> 6
       \<and> tx_compile M mem ''pow(2,3,4)'' [] 0 = (NULL, 8)
       \<and> tx_compile M mem ''pow(2,3)'' [] 0 = (const_node (cpow M (cx 2) (cx 3)), 0)"
    using assms(1,2) by (simp add: run_defs node_defs parser_simps env_simps replicate_numeral_node)
  from a last_call_text[of d ds] b show ?thesis
    by (intro conjI) blast+
qed

text \<open>
  The hypotheses of C8 hold on the machine \<open>ideal\<close>: a function of arity 3 called with
  two and with three arguments, and a pure closure of arity 2 called with three.
\<close>

theorem arity_enforced_witness:
  "tx_compile ideal memory0 ''g(1,2)'' [var_g TX_FUNCTION3 (Code (Native 0)) NULL_ptr] 1 = (NULL, 6)
   \<and> fst (tx_compile ideal memory0 ''g(1,2,3)'' [var_g TX_FUNCTION3 (Code (Native 0)) NULL_ptr] 1)
       \<noteq> NULL
   \<and> snd (tx_compile ideal memory0 ''g(1,2,3)'' [var_g TX_FUNCTION3 (Code (Native 0)) NULL_ptr] 1) = 0
   \<and> tx_compile ideal memory0 ''g(1,2,3)''
        [var_g (TX_CLOSURE2 OR TX_FLAG_PURE) (Code (Native 0)) (Storage 0)] 1 = (NULL, 6)
   \<and> tx_compile ideal memory0 ''pow(2)'' [] 0 = (NULL, 6)"
proof -
  have m: "TYPE_MASK TX_FUNCTION3 \<in> nary_types" "TYPE_MASK (TX_CLOSURE2 OR TX_FLAG_PURE) \<in> nary_types"
    by (simp_all add: TYPE_MASK_def nary_types_def)
  have d: "isdigit CHR ''1''" "list_all isdigit ''2''" "list_all isdigit ''23''"
    by (simp_all add: isdigit_def)
  have ar: "nat (ARITY TX_FUNCTION3) = 3" "ARITY (TX_CLOSURE2 OR TX_FLAG_PURE) = 2"
    by (simp_all add: ARITY_def)
  have tx: "call_text CHR ''1'' ''2'' = ''g(1,2)''" "call_text CHR ''1'' ''23'' = ''g(1,2,3)''"
    by (simp_all add: call_text_def args_tail_def)
  note few = arity_enforced[OF single_digits_ideal allocates_ideal m(1) d(1) d(2),
      of memory0 "Code (Native 0)" NULL_ptr]
  note same = arity_enforced[OF single_digits_ideal allocates_ideal m(1) d(1) d(3),
      of memory0 "Code (Native 0)" NULL_ptr]
  note more = arity_enforced[OF single_digits_ideal allocates_ideal m(2) d(1) d(3),
      of memory0 "Code (Native 0)" "Storage 0"]
  have 1: "tx_compile ideal memory0 ''g(1,2)'' [var_g TX_FUNCTION3 (Code (Native 0)) NULL_ptr] 1
      = (NULL, 6)"
    using few ar(1) tx(1) by simp
  have 2: "fst (tx_compile ideal memory0 ''g(1,2,3)'' [var_g TX_FUNCTION3 (Code (Native 0)) NULL_ptr] 1)
       \<noteq> NULL
     \<and> snd (tx_compile ideal memory0 ''g(1,2,3)'' [var_g TX_FUNCTION3 (Code (Native 0)) NULL_ptr] 1) = 0"
    using same ar(1) tx(2) by simp
  have 3: "tx_compile ideal memory0 ''g(1,2,3)''
        [var_g (TX_CLOSURE2 OR TX_FLAG_PURE) (Code (Native 0)) (Storage 0)] 1 = (NULL, 6)"
    using more ar(2) tx(2) by simp
  have 4: "tx_compile ideal memory0 ''pow(2)'' [] 0 = (NULL, 6)"
    using few by blast
  from 1 2 3 4 show ?thesis
    by blast
qed

section \<open>What the parser keeps and what it allocates\<close>

text \<open>
  \<open>alloc_failed M a b\<close>: one of the calls of \<^verbatim>\<open>malloc\<close> numbered \<open>a\<close> to \<open>b - 1\<close> fails.
  \<open>is_suffix xs ys\<close>: the pointer \<open>xs\<close> points into the string \<open>ys\<close>.
  \<open>same_frame s s'\<close>: from \<open>s\<close> to \<open>s'\<close> nothing was allocated, the start of the text and
  the bindings are the same, and the cursor has moved forward inside the text.
  \<open>parsed M s (r, s')\<close>: a production started in \<open>s\<close> returned the node \<open>r\<close> in the state
  \<open>s'\<close>, where \<open>r\<close> is null exactly when one of its allocations failed.
\<close>

definition alloc_failed :: "machine \<Rightarrow> nat \<Rightarrow> nat \<Rightarrow> bool" where
  "alloc_failed M a b = (\<exists>k. a \<le> k \<and> k < b \<and> \<not> malloc_ok M k)"

definition is_suffix :: "string \<Rightarrow> string \<Rightarrow> bool" where
  "is_suffix xs ys = (\<exists>n. xs = drop n ys)"

definition same_frame :: "state \<Rightarrow> state \<Rightarrow> bool" where
  "same_frame s s' =
     (s_start s' = s_start s \<and> s_lookup s' = s_lookup s \<and> s_mallocs s' = s_mallocs s
      \<and> is_suffix (s_next s') (s_next s))"


lemma is_suffix_refl [simp]: "is_suffix xs xs"
  unfolding is_suffix_def by (rule exI[of _ 0]) simp




lemma is_suffix_dropWhile [simp]: "is_suffix (dropWhile P xs) xs"
  unfolding is_suffix_def by (rule exI[of _ "length (takeWhile P xs)"]) (simp add: dropWhile_eq_drop)


lemma alloc_failed_empty [simp]: "\<not> alloc_failed M a a"
  by (simp add: alloc_failed_def)



lemma same_frame_refl [simp]: "same_frame s s"
  by (simp add: same_frame_def)


lemma same_frame_type [simp]: "same_frame s (s'\<lparr>s_type := t\<rparr>) = same_frame s s'"
  by (simp add: same_frame_def)

















lemma set_union_null [simp]: "set_union u r = NULL \<longleftrightarrow> r = NULL"
  by (cases r) simp_all

lemma set_context_null [simp]: "set_context c r = NULL \<longleftrightarrow> r = NULL"
  by (cases r) simp_all

lemma set_parameter_null [simp]: "set_parameter i p r = NULL \<longleftrightarrow> r = NULL"
  by (cases r) simp_all

lemma call_node_null [simp]: "call_node s r = NULL \<longleftrightarrow> r = NULL"
  by (simp add: call_node_def Let_def)























section \<open>Allocation failures\<close>







section \<open>Trailing input\<close>









end
